theory Spec2Isabelle
  imports Complex_Main "HOL-Library.AList"
begin

section \<open>Configuration: character types and abilities\<close>

text \<open>
  The enums of \<^verbatim>\<open>config/CharacterType.ts\<close>, \<^verbatim>\<open>config/AbilityOffense.ts\<close> and
  \<^verbatim>\<open>config/AbilityDefense.ts\<close>. Each enum member carries a string value; the functions
  \<open>..._value\<close> give it.
\<close>

datatype CharacterType = Warrior | Mage

fun CharacterType_value :: "CharacterType \<Rightarrow> string" where
  "CharacterType_value Warrior = ''warrior''"
| "CharacterType_value Mage = ''mage''"

record CharacterTypeData =
  ctd_name :: string
  attacks :: "string list"

fun CharacterTypeData_of :: "CharacterType \<Rightarrow> CharacterTypeData" where
  "CharacterTypeData_of Warrior =
     \<lparr>ctd_name = ''Warrior'', attacks = [''slash'', ''stab'', ''shieldBash'']\<rparr>"
| "CharacterTypeData_of Mage =
     \<lparr>ctd_name = ''Mage'', attacks = [''fireball'', ''icebolt'', ''arcaneBlast'']\<rparr>"

datatype OffenseAbility = BoostAttackOnAttack

datatype DefenseAbility = HalfDamageOnDefend | HealUnder30

fun OffenseAbility_value :: "OffenseAbility \<Rightarrow> string" where
  "OffenseAbility_value BoostAttackOnAttack = ''boostAttackOnAttack''"

fun DefenseAbility_value :: "DefenseAbility \<Rightarrow> string" where
  "DefenseAbility_value HalfDamageOnDefend = ''halfDamageOnDefend''"
| "DefenseAbility_value HealUnder30 = ''healUnder30''"

text \<open>
  Every \<^verbatim>\<open>Math.random()\<close> call of the source is an explicit argument \<open>r\<close>, the number
  the call returned (in \<open>[0, 1)\<close>). Attack, damage and health values are integers.
  Products and quotients are exact where the code computes in IEEE doubles: the two agree
  on integers below \<open>2^53\<close>, and \<^verbatim>\<open>randomInRange\<close> can differ by one for a draw within
  rounding distance of a boundary between two results.
\<close>

definition onAttack :: "OffenseAbility \<Rightarrow> real \<Rightarrow> int \<Rightarrow> int" where
  "onAttack a r baseAttack =
     (case a of BoostAttackOnAttack \<Rightarrow>
        if r < 0.25 then \<lfloor>of_int baseAttack * (1.5 :: real)\<rfloor> else baseAttack)"

definition onDefend :: "real \<Rightarrow> int \<Rightarrow> int" where
  \<comment> \<open>\<^verbatim>\<open>DefenseBehaviors[HalfDamageOnDefend].onDefend\<close>\<close>
  "onDefend r netDamage =
     (if r < 0.25 then \<lfloor>of_int netDamage / (2 :: real)\<rfloor> else netDamage)"

definition afterDamage :: "real \<Rightarrow> int \<Rightarrow> int" where
  \<comment> \<open>\<^verbatim>\<open>DefenseBehaviors[HealUnder30].afterDamage\<close>\<close>
  "afterDamage r healthAfterDamage =
     (if healthAfterDamage > 0 \<and> healthAfterDamage < 30 \<and> r < 0.25
      then healthAfterDamage + 5 else healthAfterDamage)"

section \<open>Ability and Character\<close>

datatype AbilityKind = offense | defense

datatype AbilityType = OffenseId OffenseAbility | DefenseId DefenseAbility

fun AbilityType_value :: "AbilityType \<Rightarrow> string" where
  "AbilityType_value (OffenseId a) = OffenseAbility_value a"
| "AbilityType_value (DefenseId d) = DefenseAbility_value d"

record Ability =
  abilityId :: AbilityType
  abilityName :: string
  description :: string
  kind :: AbilityKind

definition Ability_all :: "Ability list" where
  "Ability_all =
     [\<lparr>abilityId = OffenseId BoostAttackOnAttack,
       abilityName = ''Boost Attack on Attack'',
       description = ''25% chance to increase your damage by 50% when attacking.'',
       kind = offense\<rparr>,
      \<lparr>abilityId = DefenseId HalfDamageOnDefend,
       abilityName = ''Half Damage on Defend'',
       description = ''25% chance to take only half damage when attacked.'',
       kind = defense\<rparr>,
      \<lparr>abilityId = DefenseId HealUnder30,
       abilityName = ''Heal Under 30'',
       description = ''25% chance to heal 5 HP if your health falls below 30.'',
       kind = defense\<rparr>]"

definition findById :: "string \<Rightarrow> Ability option" where
  "findById i = find (\<lambda>a. AbilityType_value (abilityId a) = i) Ability_all"

definition parseType :: "string \<Rightarrow> CharacterType option" where
  \<comment> \<open>\<^verbatim>\<open>(Object.values(CharacterType) as string[]).find((t) => t === id)\<close>\<close>
  "parseType i = find (\<lambda>t. CharacterType_value t = i) [Warrior, Mage]"

record Character =
  ctype :: CharacterType
  name :: string
  health :: int
  attackPower :: int
  defensePower :: int
  ability :: Ability
  attackTypes :: "string list"

definition randomInRange :: "int \<Rightarrow> int \<Rightarrow> real \<Rightarrow> int" where
  "randomInRange lo hi r = \<lfloor>r * of_int (hi - lo + 1)\<rfloor> + lo"

definition new_Character :: "CharacterType \<Rightarrow> Ability \<Rightarrow> real \<Rightarrow> real \<Rightarrow> Character" where
  \<comment> \<open>the constructor; \<open>rAtk\<close> and \<open>rDef\<close> are its two random draws, in call order\<close>
  "new_Character t a rAtk rDef =
     \<lparr>ctype = t,
      name = ctd_name (CharacterTypeData_of t),
      health = 100,
      attackPower = randomInRange 15 20 rAtk,
      defensePower = randomInRange 10 15 rDef,
      ability = a,
      attackTypes = attacks (CharacterTypeData_of t)\<rparr>"

section \<open>Session\<close>

text \<open>
  A JavaScript \<^verbatim>\<open>Map\<close> is an association list with distinct keys in insertion order:
  \<^verbatim>\<open>set\<close> is \<^const>\<open>AList.update\<close> (overwrite in place, or append), \<^verbatim>\<open>get\<close> is
  \<^const>\<open>map_of\<close>, \<^verbatim>\<open>delete\<close> is \<^const>\<open>AList.delete\<close> and \<^verbatim>\<open>size\<close> is
  \<^const>\<open>length\<close>. A timer handle is \<open>Some delay\<close> once \<^verbatim>\<open>setTimeout\<close> has stored
  it and \<open>None\<close> for \<^verbatim>\<open>null\<close>. The three \<^verbatim>\<open>uuidv4()\<close> results of the constructor are
  its arguments. Slot numbers are integers; an absent \<^verbatim>\<open>preferredSlot\<close> is \<open>None\<close>.
\<close>

type_synonym Timeout = nat

record Session =
  session_id :: string
  player1Id :: string
  player2Id :: string
  players :: "(string \<times> Character) list"
  sockets :: "(string \<times> string) list"
  pendingJoinTimer :: "Timeout option"
  disconnectTimer :: "Timeout option"
  takenSlots :: "int set"

datatype error =
    SessionFull
  | NoSlotsAvailable
  | InvalidCharacterType string
  | InvalidAbilityId string
  | PlayersNotFound
  | TypeError

definition new_Session :: "string \<Rightarrow> string \<Rightarrow> string \<Rightarrow> Session" where
  "new_Session i p1 p2 =
     \<lparr>session_id = i, player1Id = p1, player2Id = p2, players = [], sockets = [],
      pendingJoinTimer = Some 60000, disconnectTimer = None, takenSlots = {}\<rparr>"

definition has :: "('k \<times> 'v) list \<Rightarrow> 'k \<Rightarrow> bool" where
  "has m k = (map_of m k \<noteq> None)"

definition getAvailableSlots :: "Session \<Rightarrow> int list" where
  "getAvailableSlots this =
     (if 1 \<notin> takenSlots this then [1] else []) @ (if 2 \<notin> takenSlots this then [2] else [])"

definition truthy :: "int option \<Rightarrow> bool" where
  \<comment> \<open>JavaScript truthiness of a \<^verbatim>\<open>number | undefined\<close>: \<^verbatim>\<open>undefined\<close> and 0 are falsy\<close>
  "truthy p = (case p of None \<Rightarrow> False | Some n \<Rightarrow> n \<noteq> 0)"

text \<open>
  \<^verbatim>\<open>assignPlayerSlot\<close> returns the slot together with the session after the call. In its
  first branch the source compares two \<^verbatim>\<open>Character\<close> references with \<^verbatim>\<open>===\<close>; every key
  of \<^verbatim>\<open>players\<close> holds an object of its own, so for a \<open>playerId\<close> that is a key the
  comparison with the object stored under \<open>player1Id\<close> holds exactly when the two keys are
  equal.
\<close>

definition assignPlayerSlot :: "Session \<Rightarrow> string \<Rightarrow> int option \<Rightarrow> error + (int \<times> Session)" where
  "assignPlayerSlot this playerId preferredSlot =
     (if has (players this) playerId then
        Inr (if 1 \<in> takenSlots this \<and> playerId = player1Id this then 1 else 2, this)
      else if truthy preferredSlot \<and> the preferredSlot \<notin> takenSlots this then
        Inr (the preferredSlot,
             this\<lparr>takenSlots := insert (the preferredSlot) (takenSlots this)\<rparr>)
      else
        (case getAvailableSlots this of
           [] \<Rightarrow> Inl NoSlotsAvailable
         | assignedSlot # _ \<Rightarrow>
             Inr (assignedSlot, this\<lparr>takenSlots := insert assignedSlot (takenSlots this)\<rparr>)))"

text \<open>
  \<^verbatim>\<open>addPlayer\<close> returns what the call returned or threw, and the session as the call left
  it: a \<^verbatim>\<open>throw\<close> does not undo the assignments made before it.
\<close>

definition addPlayer ::
  "Session \<Rightarrow> string \<Rightarrow> string \<Rightarrow> int option \<Rightarrow> real \<Rightarrow> real \<Rightarrow> (error + string) \<times> Session" where
  "addPlayer this characterTypeId abilId preferredSlot rAtk rDef =
     (if length (players this) \<ge> 2 then (Inl SessionFull, this)
      else
        (case assignPlayerSlot this [] preferredSlot of
           Inl e \<Rightarrow> (Inl e, this)
         | Inr (slot, this1) \<Rightarrow>
             let playerId = (if slot = 1 then player1Id this1 else player2Id this1) in
             (case parseType characterTypeId of
                None \<Rightarrow> (Inl (InvalidCharacterType characterTypeId), this1)
              | Some charType \<Rightarrow>
                  (case findById abilId of
                     None \<Rightarrow> (Inl (InvalidAbilityId abilId), this1)
                   | Some abil \<Rightarrow>
                       let character = new_Character charType abil rAtk rDef;
                           this2 = this1\<lparr>players := AList.update playerId character (players this1)\<rparr>;
                           this3 = (if length (players this2) = 2 \<and> pendingJoinTimer this2 \<noteq> None
                                    then this2\<lparr>pendingJoinTimer := None\<rparr> else this2)
                       in (Inr playerId, this3)))))"

definition hasPlayer :: "Session \<Rightarrow> string \<Rightarrow> bool" where
  "hasPlayer this playerId = has (players this) playerId"

definition bothConnected :: "Session \<Rightarrow> bool" where
  "bothConnected this =
     (if length (players this) \<noteq> 2 then False
      else list_all (\<lambda>pid. pid \<in> set (map snd (sockets this))) (map fst (players this)))"

definition attachSocket :: "Session \<Rightarrow> string \<Rightarrow> string \<Rightarrow> Session" where
  "attachSocket this socketId playerId =
     (let this1 = this\<lparr>sockets := AList.update socketId playerId (sockets this)\<rparr>
      in if bothConnected this1 \<and> disconnectTimer this1 \<noteq> None
         then this1\<lparr>disconnectTimer := None\<rparr> else this1)"

definition detachSocket :: "Session \<Rightarrow> string \<Rightarrow> bool \<times> Session" where
  "detachSocket this socketId =
     (let wasAttached = has (sockets this) socketId;
          this1 = this\<lparr>sockets := AList.delete socketId (sockets this)\<rparr>
      in if \<not> wasAttached then (False, this1)
         else if \<not> bothConnected this1 \<and> disconnectTimer this1 = None
         then (True, this1\<lparr>disconnectTimer := Some 60000\<rparr>)
         else (True, this1))"


section \<open>Combat: \<^verbatim>\<open>Session.useAbility\<close>\<close>

text \<open>
  The random numbers one resolution may draw, one per call site: \<open>rOnAttack\<close> inside
  \<^verbatim>\<open>onAttack\<close>, \<open>rOnDefend\<close> inside \<^verbatim>\<open>onDefend\<close>, \<open>rAfterDamage\<close> inside
  \<^verbatim>\<open>afterDamage\<close>.
\<close>

record Rnd =
  rOnAttack :: real
  rOnDefend :: real
  rAfterDamage :: real

text \<open>
  \<^verbatim>\<open>OffenseBehaviors[offId]\<close> is \<^verbatim>\<open>undefined\<close> for an id outside the offense enum, and the
  call of \<^verbatim>\<open>.onAttack\<close> on it throws a \<^verbatim>\<open>TypeError\<close>.
\<close>

definition offenseAttack :: "Ability \<Rightarrow> real \<Rightarrow> int \<Rightarrow> error + int" where
  "offenseAttack a r baseAttack =
     (case abilityId a of
        OffenseId offId \<Rightarrow> Inr (onAttack offId r baseAttack)
      | DefenseId _ \<Rightarrow> Inl TypeError)"

definition useAbility :: "Session \<Rightarrow> string \<Rightarrow> string \<Rightarrow> Rnd \<Rightarrow> error + Session" where
  "useAbility this fromPlayer toPlayer rnd =
     (case (map_of (players this) fromPlayer, map_of (players this) toPlayer) of
        (Some attacker, Some defender) \<Rightarrow>
          (case (if kind (ability attacker) = offense
                 then offenseAttack (ability attacker) (rOnAttack rnd) (attackPower attacker)
                 else Inr (attackPower attacker)) of
             Inl e \<Rightarrow> Inl e
           | Inr attackValue \<Rightarrow>
               let netDamage0 = attackValue - defensePower defender;
                   netDamage1 = (if netDamage0 < 0 then 0 else netDamage0);
                   netDamage =
                     (if kind (ability defender) = defense
                         \<and> abilityId (ability defender) = DefenseId HalfDamageOnDefend
                      then onDefend (rOnDefend rnd) netDamage1 else netDamage1);
                   health0 = health defender - netDamage;
                   health1 = (if health0 < 0 then 0 else health0);
                   health2 =
                     (if kind (ability defender) = defense
                         \<and> abilityId (ability defender) = DefenseId HealUnder30
                      then afterDamage (rAfterDamage rnd) health1 else health1)
               in Inr (this\<lparr>players :=
                         AList.update toPlayer (defender\<lparr>health := health2\<rparr>) (players this)\<rparr>))
      | _ \<Rightarrow> Inl PlayersNotFound)"

section \<open>Serialization\<close>

record SerializedPlayer =
  sp_playerId :: string
  sp_name :: string
  sp_health :: int
  sp_attackPower :: int
  sp_defensePower :: int
  sp_abilityId :: string
  sp_attackTypes :: "string list"

record SerializedSession =
  ss_id :: string
  ss_players :: "SerializedPlayer list"
  ss_bothConnected :: bool

definition serialize :: "Session \<Rightarrow> SerializedSession" where
  "serialize this =
     \<lparr>ss_id = session_id this,
      ss_players =
        map (\<lambda>(pid, char).
               \<lparr>sp_playerId = pid, sp_name = name char, sp_health = health char,
                sp_attackPower = attackPower char, sp_defensePower = defensePower char,
                sp_abilityId = AbilityType_value (abilityId (ability char)),
                sp_attackTypes = attackTypes char\<rparr>)
            (players this),
      ss_bothConnected = bothConnected this\<rparr>"

section \<open>Session manager, routes and socket handlers\<close>

text \<open>
  The server state: the \<^verbatim>\<open>sessions\<close> map of the \<^verbatim>\<open>SessionManager\<close> singleton and the two
  module-level maps of \<^verbatim>\<open>sockets/sessions.ts\<close>. A \<^verbatim>\<open>Session\<close> object is the entry stored
  under its id; a method call that mutates the object replaces the entry.
\<close>

record Server =
  sessions :: "(string \<times> Session) list"
  socketToSession :: "(string \<times> string) list"
  sessionRounds :: "(string \<times> int) list"

definition initial_Server :: Server where
  "initial_Server = \<lparr>sessions = [], socketToSession = [], sessionRounds = []\<rparr>"

definition SessionManager_create :: "Server \<Rightarrow> string \<Rightarrow> string \<Rightarrow> string \<Rightarrow> Server" where
  "SessionManager_create st i p1 p2 =
     st\<lparr>sessions := AList.update i (new_Session i p1 p2) (sessions st)\<rparr>"

definition SessionManager_get :: "Server \<Rightarrow> string \<Rightarrow> Session option" where
  "SessionManager_get st i = map_of (sessions st) i"

definition SessionManager_delete :: "Server \<Rightarrow> string \<Rightarrow> Server" where
  "SessionManager_delete st i = st\<lparr>sessions := AList.delete i (sessions st)\<rparr>"

text \<open>The two timer callbacks, run on the session \<open>this\<close> as it is when the timer fires.\<close>

definition pendingJoinTimer_callback :: "Session \<Rightarrow> Server \<Rightarrow> Server" where
  "pendingJoinTimer_callback this st =
     (if length (players this) < 2 then SessionManager_delete st (session_id this) else st)"

definition disconnectTimer_callback :: "Session \<Rightarrow> Server \<Rightarrow> Server" where
  "disconnectTimer_callback this st = SessionManager_delete st (session_id this)"

record RoundResult =
  roundNumber :: int
  rr_sessionId :: string
  attackerId :: string
  attackerName :: string
  defenderId :: string
  defenderName :: string
  abilityUsed :: "string option"
  damageDealt :: int
  healthAfter :: "(string \<times> int) list"

datatype Msg =
    ErrorMsg string
  | ErrorThrown error
  | StateMsg SerializedSession
  | RoundResultMsg RoundResult

datatype Reply =
    Created string
  | AvailableSlots "int list"
  | Joined string
  | NotFound
  | BadRequest error

datatype Output =
    ToSocket string Msg
  | ToRoom string Msg
  | Http Reply

definition on_join :: "Server \<Rightarrow> string \<Rightarrow> string \<Rightarrow> string \<Rightarrow> Server \<times> Output list" where
  "on_join st socket sessionId playerId =
     (case SessionManager_get st sessionId of
        None \<Rightarrow> (st, [ToSocket socket (ErrorMsg ''Session not found.'')])
      | Some sess \<Rightarrow>
          if \<not> hasPlayer sess playerId
          then (st, [ToSocket socket (ErrorMsg ''You have not joined or invalid playerId'')])
          else
            let sess1 = attachSocket sess socket playerId;
                st1 = st\<lparr>sessions := AList.update sessionId sess1 (sessions st),
                         socketToSession := AList.update socket sessionId (socketToSession st)\<rparr>;
                serialized = serialize sess1;
                st2 = (if ss_bothConnected serialized \<and> \<not> has (sessionRounds st1) sessionId
                       then st1\<lparr>sessionRounds := AList.update sessionId 0 (sessionRounds st1)\<rparr>
                       else st1)
            in (st2, [ToRoom sessionId (StateMsg (serialize sess1))]))"


text \<open>
  The \<^verbatim>\<open>useAbility\<close> handler. Everything after the two guards runs inside \<^verbatim>\<open>try\<close>; an
  exception there is caught and reported to the calling socket, after the round counter
  has already been written. The two \<^verbatim>\<open>playersMap.get(...)!\<close> reads are lookups; the branch
  where one is \<^verbatim>\<open>undefined\<close> (excluded by the guard) is the \<^verbatim>\<open>TypeError\<close> the property read
  \<^verbatim>\<open>attacker.name\<close> would throw.
\<close>

definition on_useAbility ::
  "Server \<Rightarrow> string \<Rightarrow> string \<Rightarrow> string \<Rightarrow> string \<Rightarrow> Rnd \<Rightarrow> Server \<times> Output list" where
  "on_useAbility st socket sessionId fromPlayer toPlayer rnd =
     (case SessionManager_get st sessionId of
        None \<Rightarrow> (st, [ToSocket socket (ErrorMsg ''Session not found.'')])
      | Some sess \<Rightarrow>
          if \<not> hasPlayer sess fromPlayer \<or> \<not> hasPlayer sess toPlayer
          then (st, [ToSocket socket (ErrorMsg ''One or both players not recognized.'')])
          else
            let roundNo = (case map_of (sessionRounds st) sessionId of
                             Some n \<Rightarrow> n + 1 | None \<Rightarrow> 1);
                st1 = st\<lparr>sessionRounds := AList.update sessionId roundNo (sessionRounds st)\<rparr>
            in
            (case (map_of (players sess) fromPlayer, map_of (players sess) toPlayer) of
               (Some attacker, Some defender) \<Rightarrow>
                 let baseAttack = attackPower attacker;
                     defPower = defensePower defender;
                     beforeHealth = health defender
                 in
                 (case (if kind (ability attacker) = offense
                        then offenseAttack (ability attacker) (rOnAttack rnd) baseAttack
                        else Inr baseAttack) of
                    Inl e \<Rightarrow> (st1, [ToSocket socket (ErrorThrown e)])
                  | Inr modifiedAttack \<Rightarrow>
                      let offenseAbilityUsed =
                            (if kind (ability attacker) = offense \<and> modifiedAttack \<noteq> baseAttack
                             then Some (AbilityType_value (abilityId (ability attacker)))
                             else None);
                          netDamage0 = modifiedAttack - defPower;
                          netDamage1 = (if netDamage0 < 0 then 0 else netDamage0);
                          isHalf = (kind (ability defender) = defense
                                    \<and> abilityId (ability defender) = DefenseId HalfDamageOnDefend);
                          netDamage = (if isHalf then onDefend (rOnDefend rnd) netDamage1
                                       else netDamage1);
                          defenseAbilityUsed1 =
                            (if isHalf \<and> netDamage \<noteq> netDamage1
                             then Some (AbilityType_value (abilityId (ability defender)))
                             else None);
                          newHealth0 = beforeHealth - netDamage;
                          newHealth1 = (if newHealth0 < 0 then 0 else newHealth0);
                          isHeal = (kind (ability defender) = defense
                                    \<and> abilityId (ability defender) = DefenseId HealUnder30);
                          newHealth = (if isHeal then afterDamage (rAfterDamage rnd) newHealth1
                                       else newHealth1);
                          defenseAbilityUsed =
                            (if isHeal \<and> newHealth \<noteq> newHealth1
                             then Some (AbilityType_value (abilityId (ability defender)))
                             else defenseAbilityUsed1);
                          sess1 = sess\<lparr>players :=
                                    AList.update toPlayer (defender\<lparr>health := newHealth\<rparr>)
                                      (players sess)\<rparr>;
                          abilityUsed0 = offenseAbilityUsed;
                          abilityUsed1 =
                            (case defenseAbilityUsed of
                               None \<Rightarrow> abilityUsed0
                             | Some d \<Rightarrow>
                                 (case abilityUsed0 of
                                    Some a \<Rightarrow> Some (a @ '','' @ d)
                                  | None \<Rightarrow> Some d));
                          attackerHealthPost =
                            (case map_of (players sess1) fromPlayer of
                               Some a \<Rightarrow> health a | None \<Rightarrow> health attacker);
                          defenderHealthPost = newHealth;
                          roundResult =
                            \<lparr>roundNumber = roundNo, rr_sessionId = sessionId,
                             attackerId = fromPlayer, attackerName = name attacker,
                             defenderId = toPlayer, defenderName = name defender,
                             abilityUsed = abilityUsed1, damageDealt = netDamage,
                             healthAfter =
                               AList.update toPlayer defenderHealthPost
                                 [(fromPlayer, attackerHealthPost)]\<rparr>;
                          st2 = st1\<lparr>sessions := AList.update sessionId sess1 (sessions st1)\<rparr>
                      in (st2, [ToRoom sessionId (RoundResultMsg roundResult),
                                ToRoom sessionId (StateMsg (serialize sess1))]))
             | _ \<Rightarrow> (st1, [ToSocket socket (ErrorThrown TypeError)])))"

definition on_disconnect :: "Server \<Rightarrow> string \<Rightarrow> Server \<times> Output list" where
  "on_disconnect st socket =
     (case map_of (socketToSession st) socket of
        None \<Rightarrow> (st, [])
      | Some sessionId \<Rightarrow>
          let (st1, out) =
                (case SessionManager_get st sessionId of
                   None \<Rightarrow> (st, [])
                 | Some sess \<Rightarrow>
                     let (wasAttached, sess1) = detachSocket sess socket
                     in (st\<lparr>sessions := AList.update sessionId sess1 (sessions st)\<rparr>,
                         if wasAttached then [ToRoom sessionId (StateMsg (serialize sess1))]
                         else []))
          in (st1\<lparr>socketToSession := AList.delete socket (socketToSession st1)\<rparr>, out))"

definition createGameHandler ::
  "Server \<Rightarrow> string \<Rightarrow> string \<Rightarrow> string \<Rightarrow> Server \<times> Output list" where
  "createGameHandler st i p1 p2 = (SessionManager_create st i p1 p2, [Http (Created i)])"

definition getAvailableSlotsHandler :: "Server \<Rightarrow> string \<Rightarrow> Server \<times> Output list" where
  "getAvailableSlotsHandler st sessionId =
     (case SessionManager_get st sessionId of
        None \<Rightarrow> (st, [Http NotFound])
      | Some sess \<Rightarrow> (st, [Http (AvailableSlots (getAvailableSlots sess))]))"

definition joinGameHandler ::
  "Server \<Rightarrow> string \<Rightarrow> string \<Rightarrow> string \<Rightarrow> int option \<Rightarrow> real \<Rightarrow> real \<Rightarrow> Server \<times> Output list" where
  "joinGameHandler st sessionId characterTypeId abilId preferredSlot rAtk rDef =
     (case SessionManager_get st sessionId of
        None \<Rightarrow> (st, [Http NotFound])
      | Some sess \<Rightarrow>
          (case addPlayer sess characterTypeId abilId preferredSlot rAtk rDef of
             (Inr playerId, sess1) \<Rightarrow>
               (st\<lparr>sessions := AList.update sessionId sess1 (sessions st)\<rparr>,
                [Http (Joined playerId)])
           | (Inl e, sess1) \<Rightarrow>
               (st\<lparr>sessions := AList.update sessionId sess1 (sessions st)\<rparr>,
                [Http (BadRequest e)])))"

subsection \<open>Events\<close>

text \<open>
  Node runs one handler or timer callback at a time, to completion; a run of the server
  is a list of events. A timer fires only while its handle is set (\<^verbatim>\<open>clearTimeout\<close>
  prevents the callback), and what its callback does to the registry is
  \<^verbatim>\<open>delete(this.id)\<close>, so the timers of a session that is no longer registered change
  nothing.
\<close>

datatype Event =
    CreateGame string string string
  | GetSlots string
  | JoinGame string string string "int option" real real
  | SocketJoin string string string
  | SocketUseAbility string string string string Rnd
  | SocketDisconnect string
  | PendingJoinTimerFires string
  | DisconnectTimerFires string

fun step :: "Server \<Rightarrow> Event \<Rightarrow> Server \<times> Output list" where
  "step st (CreateGame i p1 p2) = createGameHandler st i p1 p2"
| "step st (GetSlots i) = getAvailableSlotsHandler st i"
| "step st (JoinGame i c a p rAtk rDef) = joinGameHandler st i c a p rAtk rDef"
| "step st (SocketJoin socket i pid) = on_join st socket i pid"
| "step st (SocketUseAbility socket i f t rnd) = on_useAbility st socket i f t rnd"
| "step st (SocketDisconnect socket) = on_disconnect st socket"
| "step st (PendingJoinTimerFires i) =
     (case SessionManager_get st i of
        None \<Rightarrow> (st, [])
      | Some this \<Rightarrow>
          if pendingJoinTimer this \<noteq> None then (pendingJoinTimer_callback this st, [])
          else (st, []))"
| "step st (DisconnectTimerFires i) =
     (case SessionManager_get st i of
        None \<Rightarrow> (st, [])
      | Some this \<Rightarrow>
          if disconnectTimer this \<noteq> None then (disconnectTimer_callback this st, [])
          else (st, []))"

fun run :: "Server \<Rightarrow> Event list \<Rightarrow> Server \<times> Output list" where
  "run st [] = (st, [])"
| "run st (e # es) =
     (let (st1, out1) = step st e; (st2, out2) = run st1 es in (st2, out1 @ out2))"

text \<open>The calls of the \<^verbatim>\<open>Session\<close> class that change a session, as a script.\<close>

datatype SessionCall =
    AddPlayer string string "int option" real real
  | AttachSocket string string
  | DetachSocket string

fun call :: "Session \<Rightarrow> SessionCall \<Rightarrow> Session" where
  "call this (AddPlayer c a p rAtk rDef) = snd (addPlayer this c a p rAtk rDef)"
| "call this (AttachSocket socketId playerId) = attachSocket this socketId playerId"
| "call this (DetachSocket socketId) = snd (detachSocket this socketId)"

definition calls :: "Session \<Rightarrow> SessionCall list \<Rightarrow> Session" where
  "calls this cs = foldl call this cs"


section \<open>Observations, invariants and example states\<close>

definition playerHealth :: "Session \<Rightarrow> string \<Rightarrow> int option" where
  "playerHealth this playerId = map_option health (map_of (players this) playerId)"

definition resultHealth :: "error + Session \<Rightarrow> string \<Rightarrow> int option" where
  "resultHealth r playerId = (case r of Inl e \<Rightarrow> None | Inr this \<Rightarrow> playerHealth this playerId)"

text \<open>The round results broadcast to the room of one session, in order.\<close>

fun roundResults :: "string \<Rightarrow> Output list \<Rightarrow> RoundResult list" where
  "roundResults i [] = []"
| "roundResults i (ToRoom room (RoundResultMsg rr) # out) =
     (if room = i then rr # roundResults i out else roundResults i out)"
| "roundResults i (_ # out) = roundResults i out"

definition storedRound :: "Server \<Rightarrow> string \<Rightarrow> int" where
  \<comment> \<open>the counter as step B of the handler reads it: a missing entry counts as 0\<close>
  "storedRound st i = (case map_of (sessionRounds st) i of Some n \<Rightarrow> n | None \<Rightarrow> 0)"

text \<open>A join whose preferred slot is absent or one of the two slot numbers.\<close>

fun preferred_in_range :: "SessionCall \<Rightarrow> bool" where
  "preferred_in_range (AddPlayer c a p rAtk rDef) = (p = None \<or> p = Some 1 \<or> p = Some 2)"
| "preferred_in_range (AttachSocket socketId playerId) = True"
| "preferred_in_range (DetachSocket socketId) = True"

definition slots_inv :: "string \<Rightarrow> string \<Rightarrow> Session \<Rightarrow> bool" where
  "slots_inv p1 p2 s =
     (player1Id s = p1 \<and> player2Id s = p2 \<and> fst ` set (players s) \<subseteq> {p1, p2}
      \<and> (p1 \<in> fst ` set (players s) \<longrightarrow> 1 \<in> takenSlots s)
      \<and> (p2 \<in> fst ` set (players s) \<longrightarrow> 2 \<in> takenSlots s))"

definition maps_inv :: "Session \<Rightarrow> bool" where
  "maps_inv s = (distinct (map fst (players s)) \<and> distinct (map fst (sockets s)))"

text \<open>An ability as \<^verbatim>\<open>Ability.all()\<close> builds it: the kind says which enum the id is from.\<close>

definition ability_ok :: "Ability \<Rightarrow> bool" where
  "ability_ok a = (kind a = offense \<longleftrightarrow> (\<exists>offId. abilityId a = OffenseId offId))"

definition session_ok :: "Session \<Rightarrow> bool" where
  "session_ok s =
     ((\<forall>c \<in> snd ` set (players s). ability_ok (ability c))
      \<and> snd ` set (sockets s) \<subseteq> fst ` set (players s)
      \<and> (disconnectTimer s \<noteq> None \<longrightarrow> \<not> bothConnected s))"

definition server_ok :: "Server \<Rightarrow> bool" where
  "server_ok st = (\<forall>s \<in> snd ` set (sessions st). session_ok s)"

text \<open>
  The net damage of one resolution, as the pipeline computes it from the attacker's
  attack power and ability and the defender's defense power and ability, when the
  attacker's ability is one of the catalog.
\<close>

definition netDamageOf :: "Character \<Rightarrow> Character \<Rightarrow> Rnd \<Rightarrow> int" where
  "netDamageOf attacker defender rnd =
     (let attackValue =
            (case abilityId (ability attacker) of
               OffenseId offId \<Rightarrow> onAttack offId (rOnAttack rnd) (attackPower attacker)
             | DefenseId _ \<Rightarrow> attackPower attacker);
          raw = max 0 (attackValue - defensePower defender)
      in if abilityId (ability defender) = DefenseId HalfDamageOnDefend
         then onDefend (rOnDefend rnd) raw else raw)"

definition setHealth :: "Session \<Rightarrow> string \<Rightarrow> int \<Rightarrow> Session" where
  "setHealth this playerId h =
     this\<lparr>players :=
            map (\<lambda>(k, c). if k = playerId then (k, c\<lparr>health := h\<rparr>) else (k, c)) (players this)\<rparr>"

definition fresh :: Session where
  "fresh = new_Session ''s'' ''p1'' ''p2''"

definition duel :: Session where
  "duel = calls fresh
     [AddPlayer ''warrior'' ''boostAttackOnAttack'' None 0.9 0.1,
      AddPlayer ''mage'' ''halfDamageOnDefend'' None 0.9 0.1]"

definition no_trigger :: Rnd where
  "no_trigger = \<lparr>rOnAttack = 0.5, rOnDefend = 0.5, rAfterDamage = 0.5\<rparr>"

text \<open>
  A session in which the disconnect timer is running although both players are connected:
  the second player's socket is attached before that player has joined.
\<close>

definition raced :: Session where
  "raced = calls fresh
     [AddPlayer ''warrior'' ''boostAttackOnAttack'' None 0.9 0.1,
      AttachSocket ''a'' ''p1'',
      AttachSocket ''b'' ''p2'',
      AttachSocket ''c'' ''p1'',
      DetachSocket ''c'',
      AddPlayer ''mage'' ''halfDamageOnDefend'' None 0.9 0.1]"

definition duel_events :: "Event list" where
  "duel_events =
     [CreateGame ''s'' ''p1'' ''p2'',
      JoinGame ''s'' ''warrior'' ''boostAttackOnAttack'' None 0.9 0.1,
      JoinGame ''s'' ''mage'' ''halfDamageOnDefend'' None 0.9 0.1]"


definition duel_server :: Server where
  "duel_server = fst (run initial_Server duel_events)"

text \<open>
  What one event does to the round counter of session \<open>i\<close>: either no round result for
  \<open>i\<close> is broadcast and the counter keeps its value, or exactly one is, numbered one above
  the old value, and the counter is that number.
\<close>

definition counted :: "string \<Rightarrow> Server \<Rightarrow> Server \<times> Output list \<Rightarrow> bool" where
  "counted i st r =
     ((roundResults i (snd r) = [] \<and> storedRound (fst r) i = storedRound st i)
      \<or> (\<exists>rr. roundResults i (snd r) = [rr] \<and> roundNumber rr = storedRound st i + 1
            \<and> storedRound (fst r) i = storedRound st i + 1))"

definition duel_fight :: "Event list" where
  "duel_fight =
     [SocketUseAbility ''a'' ''s'' ''p1'' ''p2'' no_trigger,
      SocketUseAbility ''b'' ''s'' ''p2'' ''p1'' no_trigger]"

definition duel_dropped :: "Event list" where
  "duel_dropped =
     [SocketJoin ''a'' ''s'' ''p1'',
      SocketJoin ''b'' ''s'' ''p2'',
      SocketDisconnect ''b'']"

definition raced_server :: Server where
  "raced_server =
     \<lparr>sessions = [(''s'', raced)], socketToSession = [(''a'', ''s''), (''b'', ''s'')],
      sessionRounds = []\<rparr>"

text \<open>
  Draws that trigger every hook, and a duel in which the first player has attacked itself
  five times (once without and four times with the attack boost), down to health 10.
\<close>

definition boosted :: Rnd where
  "boosted = \<lparr>rOnAttack = 0.1, rOnDefend = 0.1, rAfterDamage = 0.1\<rparr>"

definition duel_worn :: "Event list" where
  "duel_worn =
     [SocketUseAbility ''a'' ''s'' ''p1'' ''p1'' no_trigger,
      SocketUseAbility ''a'' ''s'' ''p1'' ''p1'' boosted,
      SocketUseAbility ''a'' ''s'' ''p1'' ''p1'' boosted,
      SocketUseAbility ''a'' ''s'' ''p1'' ''p1'' boosted,
      SocketUseAbility ''a'' ''s'' ''p1'' ''p1'' boosted]"

definition worn :: Session where
  "worn = setHealth duel ''p1'' 10"

section \<open>Basic facts\<close>

lemmas session_eval =
  calls_def addPlayer_def new_Session_def assignPlayerSlot_def has_def truthy_def
  getAvailableSlots_def parseType_def findById_def Ability_all_def new_Character_def
  randomInRange_def attachSocket_def detachSocket_def bothConnected_def hasPlayer_def

lemma has_iff: "has m k \<longleftrightarrow> k \<in> fst ` set m"
  by (simp add: has_def map_of_eq_None_iff)

lemma set_update_fst: "fst ` set (AList.update k v xs) = insert k (fst ` set xs)"
  by (induction xs) auto

lemma onDefend_div: "onDefend r n = (if r < 0.25 then n div 2 else n)"
  unfolding onDefend_def by (simp add: floor_divide_of_int_eq[of n 2, simplified])

lemma onAttack_div: "onAttack a r n = (if r < 0.25 then (3 * n) div 2 else n)"
proof -
  have "real_of_int n * 1.5 = real_of_int (3 * n) / real_of_int 2" by simp
  then have "\<lfloor>real_of_int n * 1.5\<rfloor> = (3 * n) div 2"
    by (simp only: floor_divide_of_int_eq)
  then show ?thesis unfolding onAttack_def by (cases a) simp
qed

lemma duel_eq:
  "duel = \<lparr>session_id = ''s'', player1Id = ''p1'', player2Id = ''p2'',
     players = [(''p1'', \<lparr>ctype = Warrior, name = ''Warrior'', health = 100, attackPower = 20,
                   defensePower = 10, ability = Ability_all ! 0,
                   attackTypes = [''slash'', ''stab'', ''shieldBash'']\<rparr>),
                (''p2'', \<lparr>ctype = Mage, name = ''Mage'', health = 100, attackPower = 20,
                   defensePower = 10, ability = Ability_all ! 1,
                   attackTypes = [''fireball'', ''icebolt'', ''arcaneBlast'']\<rparr>)],
     sockets = [], pendingJoinTimer = None, disconnectTimer = None, takenSlots = {1, 2}\<rparr>"
  unfolding duel_def fresh_def by (simp add: session_eval Let_def insert_commute)

lemma raced_eq:
  "raced = duel\<lparr>sockets := [(''a'', ''p1''), (''b'', ''p2'')], disconnectTimer := Some 60000\<rparr>"
  unfolding duel_eq unfolding raced_def fresh_def
  by (simp add: session_eval Let_def insert_commute)

lemma attachSocket_fields [simp]:
  "players (attachSocket s x y) = players s"
  "takenSlots (attachSocket s x y) = takenSlots s"
  "player1Id (attachSocket s x y) = player1Id s"
  "player2Id (attachSocket s x y) = player2Id s"
  "session_id (attachSocket s x y) = session_id s"
  "pendingJoinTimer (attachSocket s x y) = pendingJoinTimer s"
  "sockets (attachSocket s x y) = AList.update x y (sockets s)"
  unfolding attachSocket_def by (simp_all add: Let_def)

lemma detachSocket_fields [simp]:
  "players (snd (detachSocket s x)) = players s"
  "takenSlots (snd (detachSocket s x)) = takenSlots s"
  "player1Id (snd (detachSocket s x)) = player1Id s"
  "player2Id (snd (detachSocket s x)) = player2Id s"
  "session_id (snd (detachSocket s x)) = session_id s"
  "pendingJoinTimer (snd (detachSocket s x)) = pendingJoinTimer s"
  "sockets (snd (detachSocket s x)) = AList.delete x (sockets s)"
  unfolding detachSocket_def by (simp_all add: Let_def)

lemma assignPlayerSlot_Inr:
  assumes "assignPlayerSlot s pid p = Inr (slot, s1)"
  shows "\<exists>ts. s1 = s\<lparr>takenSlots := ts\<rparr>"
  using assms unfolding assignPlayerSlot_def
  by (auto split: if_splits list.splits intro: exI[of _ "takenSlots s"])

lemma assignPlayerSlot_fields:
  assumes "assignPlayerSlot s pid p = Inr (slot, s1)"
  shows "players s1 = players s" "sockets s1 = sockets s" "session_id s1 = session_id s"
    "player1Id s1 = player1Id s" "player2Id s1 = player2Id s"
    "disconnectTimer s1 = disconnectTimer s" "pendingJoinTimer s1 = pendingJoinTimer s"
  using assignPlayerSlot_Inr[OF assms] by auto

lemma addPlayer_fields [simp]:
  "sockets (snd (addPlayer s c a p rAtk rDef)) = sockets s"
  "session_id (snd (addPlayer s c a p rAtk rDef)) = session_id s"
  "player1Id (snd (addPlayer s c a p rAtk rDef)) = player1Id s"
  "player2Id (snd (addPlayer s c a p rAtk rDef)) = player2Id s"
  "disconnectTimer (snd (addPlayer s c a p rAtk rDef)) = disconnectTimer s"
  unfolding addPlayer_def
  by (auto simp: Let_def assignPlayerSlot_fields split: sum.splits option.splits)

lemma addPlayer_players:
  "players (snd (addPlayer s c a p rAtk rDef)) = players s
   \<or> (length (players s) < 2
       \<and> (\<exists>pid t abil. (pid = player1Id s \<or> pid = player2Id s) \<and> findById a = Some abil
            \<and> players (snd (addPlayer s c a p rAtk rDef))
                = AList.update pid (new_Character t abil rAtk rDef) (players s)))"
  unfolding addPlayer_def
  by (auto simp: Let_def assignPlayerSlot_fields split: sum.splits option.splits)

section \<open>Slots\<close>

text \<open>
  C7. \<^verbatim>\<open>assignPlayerSlot\<close> should fail with "No player slots available" whenever neither
  slot 1 nor slot 2 is free, whatever the preferred slot. On a session whose two slots
  are taken, a preferred slot of 3 is accepted instead: the call returns 3 and records it
  as taken.
\<close>

theorem assignPlayerSlot_out_of_range:
  "getAvailableSlots duel = []
   \<and> assignPlayerSlot duel [] (Some 3) = Inr (3, duel\<lparr>takenSlots := {1, 2, 3}\<rparr>)"
  unfolding duel_eq
  by (simp add: getAvailableSlots_def assignPlayerSlot_def has_def truthy_def insert_commute)

text \<open>
  C4. A failed \<^verbatim>\<open>addPlayer\<close> should leave the session unchanged. On a new session, a join
  with an unknown character type fails with the character-type error, but slot 1 has been
  claimed before the check: the available slots go from 1 and 2 to 2 alone. After two
  such joins no slot is left, and a valid join fails although no player has joined.
\<close>

theorem addPlayer_invalid_type_claims_slot:
  "getAvailableSlots fresh = [1, 2]
   \<and> addPlayer fresh ''dragon'' ''boostAttackOnAttack'' None 0.9 0.1
       = (Inl (InvalidCharacterType ''dragon''), fresh\<lparr>takenSlots := {1}\<rparr>)
   \<and> getAvailableSlots (snd (addPlayer fresh ''dragon'' ''boostAttackOnAttack'' None 0.9 0.1))
       = [2]
   \<and> fst (addPlayer
            (snd (addPlayer
                   (snd (addPlayer fresh ''dragon'' ''boostAttackOnAttack'' None 0.9 0.1))
                   ''dragon'' ''boostAttackOnAttack'' None 0.9 0.1))
            ''warrior'' ''boostAttackOnAttack'' None 0.9 0.1)
       = Inl NoSlotsAvailable"
  unfolding fresh_def by (simp add: session_eval)

lemma getAvailableSlots_set: "set (getAvailableSlots s) = {1, 2} - takenSlots s"
  unfolding getAvailableSlots_def by auto

lemma slots_inv_new: "slots_inv p1 p2 (new_Session i p1 p2)"
  unfolding slots_inv_def new_Session_def by simp

lemma assignPlayerSlot_nohas:
  "\<not> has (players s) pid \<Longrightarrow>
   assignPlayerSlot s pid p =
     (if truthy p \<and> the p \<notin> takenSlots s
      then Inr (the p, s\<lparr>takenSlots := insert (the p) (takenSlots s)\<rparr>)
      else if 1 \<notin> takenSlots s then Inr (1, s\<lparr>takenSlots := insert 1 (takenSlots s)\<rparr>)
      else if 2 \<notin> takenSlots s then Inr (2, s\<lparr>takenSlots := insert 2 (takenSlots s)\<rparr>)
      else Inl NoSlotsAvailable)"
  unfolding assignPlayerSlot_def getAvailableSlots_def by simp

lemma slots_inv_addPlayer:
  assumes inv: "slots_inv p1 p2 s" and ne: "p1 \<noteq> []" "p2 \<noteq> []" "p1 \<noteq> p2"
    and p: "p = None \<or> p = Some 1 \<or> p = Some 2"
  shows "slots_inv p1 p2 (snd (addPlayer s c a p rAtk rDef))"
proof -
  have nh: "\<not> has (players s) []"
    using inv ne unfolding slots_inv_def has_iff by auto
  from p consider "p = None" | "p = Some 1" | "p = Some 2" by blast
  then show ?thesis
  proof cases
    case 1
    then show ?thesis
      using inv ne(3)
      unfolding addPlayer_def assignPlayerSlot_nohas[OF nh] slots_inv_def
      by (auto simp: Let_def truthy_def set_update_fst split: option.splits)
  next
    case 2
    then show ?thesis
      using inv ne(3)
      unfolding addPlayer_def assignPlayerSlot_nohas[OF nh] slots_inv_def
      by (auto simp: Let_def truthy_def set_update_fst split: option.splits)
  next
    case 3
    then show ?thesis
      using inv ne(3)
      unfolding addPlayer_def assignPlayerSlot_nohas[OF nh] slots_inv_def
      by (auto simp: Let_def truthy_def set_update_fst split: option.splits)
  qed
qed

lemma slots_inv_call:
  assumes "slots_inv p1 p2 s" "p1 \<noteq> []" "p2 \<noteq> []" "p1 \<noteq> p2" "preferred_in_range c"
  shows "slots_inv p1 p2 (call s c)"
proof (cases c)
  case (AddPlayer c a p rAtk rDef)
  then show ?thesis using assms slots_inv_addPlayer by simp
next
  case (AttachSocket x y)
  then show ?thesis using assms(1) by (simp add: slots_inv_def)
next
  case (DetachSocket x)
  then show ?thesis using assms(1) by (simp add: slots_inv_def)
qed

lemma slots_inv_calls:
  assumes "p1 \<noteq> []" "p2 \<noteq> []" "p1 \<noteq> p2"
  shows "slots_inv p1 p2 s \<Longrightarrow> list_all preferred_in_range cs \<Longrightarrow> slots_inv p1 p2 (calls s cs)"
  unfolding calls_def
proof (induction cs arbitrary: s)
  case Nil
  then show ?case by simp
next
  case (Cons c cs)
  have "slots_inv p1 p2 (call s c)"
    using Cons.prems assms by (simp add: slots_inv_call)
  then show ?case using Cons by simp
qed

text \<open>
  C8 (as amended). In every session reached from a new one by \<^verbatim>\<open>addPlayer\<close>,
  \<^verbatim>\<open>attachSocket\<close> and \<^verbatim>\<open>detachSocket\<close> calls whose preferred slots are absent, 1 or 2,
  \<^verbatim>\<open>getAvailableSlots\<close> returns a subset of the slots 1 and 2 (possibly both), none of
  them taken, and it contains neither slot 1 once the first player identifier has joined
  nor slot 2 once the second has; no other identifier ever joins. The two player
  identifiers are distinct and non-empty, as generated identifiers are.
\<close>

theorem getAvailableSlots_excludes_joined:
  assumes "p1 \<noteq> []" "p2 \<noteq> []" "p1 \<noteq> p2" "list_all preferred_in_range cs"
    and "s = calls (new_Session i p1 p2) cs"
  shows "set (getAvailableSlots s) \<subseteq> {1, 2}
         \<and> set (getAvailableSlots s) \<inter> takenSlots s = {}
         \<and> (hasPlayer s (player1Id s) \<longrightarrow> 1 \<notin> set (getAvailableSlots s))
         \<and> (hasPlayer s (player2Id s) \<longrightarrow> 2 \<notin> set (getAvailableSlots s))
         \<and> (\<forall>pid. hasPlayer s pid \<longrightarrow> pid = player1Id s \<or> pid = player2Id s)"
proof -
  have "slots_inv p1 p2 s"
    using slots_inv_calls[OF assms(1-3) slots_inv_new assms(4)] assms(5) by simp
  then show ?thesis
    unfolding slots_inv_def hasPlayer_def has_iff getAvailableSlots_set by auto
qed

theorem getAvailableSlots_excludes_joined_witness:
  "set (getAvailableSlots duel) \<subseteq> {1, 2}
   \<and> hasPlayer duel (player1Id duel) \<and> 1 \<notin> set (getAvailableSlots duel)
   \<and> hasPlayer duel (player2Id duel) \<and> 2 \<notin> set (getAvailableSlots duel)"
proof -
  have "''p1'' \<noteq> []" "''p2'' \<noteq> []" "''p1'' \<noteq> ''p2''" by simp_all
  moreover have "list_all preferred_in_range
     [AddPlayer ''warrior'' ''boostAttackOnAttack'' None 0.9 0.1,
      AddPlayer ''mage'' ''halfDamageOnDefend'' None 0.9 0.1]" by simp
  moreover have "duel = calls (new_Session ''s'' ''p1'' ''p2'')
     [AddPlayer ''warrior'' ''boostAttackOnAttack'' None 0.9 0.1,
      AddPlayer ''mage'' ''halfDamageOnDefend'' None 0.9 0.1]"
    unfolding duel_def fresh_def by simp
  ultimately have *: "set (getAvailableSlots duel) \<subseteq> {1, 2}
         \<and> set (getAvailableSlots duel) \<inter> takenSlots duel = {}
         \<and> (hasPlayer duel (player1Id duel) \<longrightarrow> 1 \<notin> set (getAvailableSlots duel))
         \<and> (hasPlayer duel (player2Id duel) \<longrightarrow> 2 \<notin> set (getAvailableSlots duel))
         \<and> (\<forall>pid. hasPlayer duel pid \<longrightarrow> pid = player1Id duel \<or> pid = player2Id duel)"
    by (rule getAvailableSlots_excludes_joined)
  have "hasPlayer duel (player1Id duel)" "hasPlayer duel (player2Id duel)"
    unfolding duel_eq hasPlayer_def has_def by simp_all
  with * show ?thesis by blast
qed

text \<open>
  C8 as stated fails on a new session: both slots are available, which is not a strict
  subset of the two slots.
\<close>

theorem getAvailableSlots_fresh_not_strict:
  "\<not> set (getAvailableSlots fresh) \<subset> {1, 2}"
  unfolding fresh_def by (simp add: session_eval)

section \<open>Connections\<close>

lemma maps_inv_new: "maps_inv (new_Session i p1 p2)"
  unfolding maps_inv_def new_Session_def by simp

lemma maps_inv_addPlayer: "maps_inv s \<Longrightarrow> maps_inv (snd (addPlayer s c a p rAtk rDef))"
  using addPlayer_players[of s c a p rAtk rDef]
  unfolding maps_inv_def by (auto simp: distinct_update)

lemma maps_inv_call: "maps_inv s \<Longrightarrow> maps_inv (call s c)"
proof (cases c)
  case (AddPlayer c a p rAtk rDef)
  then show "maps_inv s \<Longrightarrow> ?thesis" using maps_inv_addPlayer by simp
next
  case (AttachSocket x y)
  then show "maps_inv s \<Longrightarrow> ?thesis"
    by (simp add: maps_inv_def distinct_update)
next
  case (DetachSocket x)
  then show "maps_inv s \<Longrightarrow> ?thesis"
    by (simp add: maps_inv_def distinct_delete)
qed

lemma maps_inv_calls: "maps_inv s \<Longrightarrow> maps_inv (calls s cs)"
  unfolding calls_def by (induction cs arbitrary: s) (simp_all add: maps_inv_call)

lemma bothConnected_iff:
  assumes "maps_inv s"
  shows "bothConnected s \<longleftrightarrow>
           card (dom (map_of (players s))) = 2
           \<and> dom (map_of (players s)) \<subseteq> ran (map_of (sockets s))"
proof -
  have d: "distinct (map fst (players s))" "distinct (map fst (sockets s))"
    using assms unfolding maps_inv_def by simp_all
  have "card (dom (map_of (players s))) = length (players s)"
    using distinct_card[OF d(1)] by (simp add: dom_map_of_conv_image_fst)
  moreover have "ran (map_of (sockets s)) = snd ` set (sockets s)"
    using d(2) by (rule ran_distinct)
  ultimately show ?thesis
    unfolding bothConnected_def by (auto simp: list_all_iff dom_map_of_conv_image_fst)
qed

text \<open>
  C6. In every session reached from a new one by \<^verbatim>\<open>addPlayer\<close>, \<^verbatim>\<open>attachSocket\<close> and
  \<^verbatim>\<open>detachSocket\<close> calls, \<^verbatim>\<open>bothConnected()\<close> is true exactly when the players map has
  two keys and each of them is a value of the sockets map.
\<close>

theorem bothConnected_characterisation:
  "bothConnected (calls (new_Session i p1 p2) cs) \<longleftrightarrow>
     card (dom (map_of (players (calls (new_Session i p1 p2) cs)))) = 2
     \<and> dom (map_of (players (calls (new_Session i p1 p2) cs)))
         \<subseteq> ran (map_of (sockets (calls (new_Session i p1 p2) cs)))"
  by (rule bothConnected_iff[OF maps_inv_calls[OF maps_inv_new]])


theorem bothConnected_characterisation_witness:
  "bothConnected raced
   \<and> card (dom (map_of (players raced))) = 2
   \<and> dom (map_of (players raced)) \<subseteq> ran (map_of (sockets raced))"
proof -
  have b: "bothConnected raced"
    unfolding raced_eq duel_eq by (simp add: bothConnected_def)
  have "raced = calls (new_Session ''s'' ''p1'' ''p2'')
     [AddPlayer ''warrior'' ''boostAttackOnAttack'' None 0.9 0.1,
      AttachSocket ''a'' ''p1'',
      AttachSocket ''b'' ''p2'',
      AttachSocket ''c'' ''p1'',
      DetachSocket ''c'',
      AddPlayer ''mage'' ''halfDamageOnDefend'' None 0.9 0.1]"
    unfolding raced_def fresh_def by simp
  with b show ?thesis
    using bothConnected_characterisation[of "''s''" "''p1''" "''p2''"
      "[AddPlayer ''warrior'' ''boostAttackOnAttack'' None 0.9 0.1,
        AttachSocket ''a'' ''p1'',
        AttachSocket ''b'' ''p2'',
        AttachSocket ''c'' ''p1'',
        DetachSocket ''c'',
        AddPlayer ''mage'' ''halfDamageOnDefend'' None 0.9 0.1]"]
    by simp
qed

section \<open>Combat\<close>

lemma on_useAbility_sessions:
  assumes "SessionManager_get st sid = Some sess"
  shows "sessions (fst (on_useAbility st sock sid f t rnd)) =
           (case useAbility sess f t rnd of
              Inr sess' \<Rightarrow> AList.update sid sess' (sessions st)
            | Inl e \<Rightarrow> sessions st)"
  using assms unfolding on_useAbility_def useAbility_def hasPlayer_def has_def
  by (auto simp: Let_def split: option.splits sum.splits)

lemma on_useAbility_results:
  assumes "SessionManager_get st sid = Some sess"
  shows "length (roundResults sid (snd (on_useAbility st sock sid f t rnd))) =
           (case useAbility sess f t rnd of Inr sess' \<Rightarrow> 1 | Inl e \<Rightarrow> 0)"
  using assms unfolding on_useAbility_def useAbility_def hasPlayer_def has_def
  by (auto simp: Let_def split: option.splits sum.splits)

lemma on_useAbility_get:
  assumes "SessionManager_get st sid = Some sess"
  shows "SessionManager_get (fst (on_useAbility st sock sid f t rnd)) sid =
           Some (case useAbility sess f t rnd of Inr sess' \<Rightarrow> sess' | Inl e \<Rightarrow> sess)"
  using assms on_useAbility_sessions[OF assms, of sock f t rnd]
  unfolding SessionManager_get_def
  by (simp add: update_conv' split: sum.splits)

lemma afterDamage_nonneg: "0 \<le> n \<Longrightarrow> 0 \<le> afterDamage r n"
  by (simp add: afterDamage_def)

lemma useAbility_health:
  assumes "useAbility this f t rnd = Inr this'"
  shows "(\<exists>h. playerHealth this' t = Some h \<and> 0 \<le> h)
         \<and> (f \<noteq> t \<longrightarrow> playerHealth this' f = playerHealth this f)"
  using assms unfolding useAbility_def playerHealth_def
  by (auto simp: Let_def update_conv' afterDamage_nonneg split: option.splits sum.splits if_splits)

lemma duel_server_eq:
  "duel_server = \<lparr>sessions = [(''s'', duel)], socketToSession = [], sessionRounds = []\<rparr>"
proof -
  have 1: "snd (addPlayer (new_Session ''s'' ''p1'' ''p2'') ''warrior'' ''boostAttackOnAttack'' None 0.9 0.1)
        = calls fresh [AddPlayer ''warrior'' ''boostAttackOnAttack'' None 0.9 0.1]"
    by (simp add: calls_def fresh_def)
  show ?thesis
    unfolding duel_server_def duel_events_def duel_def fresh_def
    by (simp add: initial_Server_def createGameHandler_def SessionManager_create_def
        joinGameHandler_def SessionManager_get_def session_eval Let_def insert_commute)
qed

lemma useAbility_duel:
  "useAbility duel ''p1'' ''p2'' no_trigger = Inr (setHealth duel ''p2'' 90)"
  unfolding duel_eq
  by (simp add: useAbility_def setHealth_def no_trigger_def Ability_all_def offenseAttack_def
      onAttack_div onDefend_div afterDamage_def Let_def)

lemma useAbility_duel_self:
  "useAbility duel ''p1'' ''p1'' no_trigger = Inr (setHealth duel ''p1'' 90)"
  unfolding duel_eq
  by (simp add: useAbility_def setHealth_def no_trigger_def Ability_all_def offenseAttack_def
      onAttack_div onDefend_div afterDamage_def Let_def)

text \<open>
  C9. The combat code inlined in the \<^verbatim>\<open>useAbility\<close> socket handler and
  \<^verbatim>\<open>Session.useAbility\<close> agree: on a registered session, with the same random draws, the
  handler leaves the session exactly as \<^verbatim>\<open>Session.useAbility\<close> does (so the defender ends
  with the same health), it leaves the session unchanged where \<^verbatim>\<open>Session.useAbility\<close>
  throws, and it broadcasts one round result exactly when \<^verbatim>\<open>Session.useAbility\<close> returns.
\<close>

theorem handler_refines_useAbility:
  assumes "SessionManager_get st sid = Some sess"
  shows "SessionManager_get (fst (on_useAbility st sock sid f t rnd)) sid =
           Some (case useAbility sess f t rnd of Inr sess' \<Rightarrow> sess' | Inl e \<Rightarrow> sess)
         \<and> length (roundResults sid (snd (on_useAbility st sock sid f t rnd))) =
           (case useAbility sess f t rnd of Inr sess' \<Rightarrow> 1 | Inl e \<Rightarrow> 0)"
  using on_useAbility_get[OF assms] on_useAbility_results[OF assms] by simp

theorem handler_refines_useAbility_witness:
  "SessionManager_get duel_server ''s'' = Some duel
   \<and> SessionManager_get (fst (on_useAbility duel_server ''a'' ''s'' ''p1'' ''p2'' no_trigger)) ''s''
       = Some (setHealth duel ''p2'' 90)
   \<and> length (roundResults ''s'' (snd (on_useAbility duel_server ''a'' ''s'' ''p1'' ''p2'' no_trigger))) = 1"
proof -
  have h: "SessionManager_get duel_server ''s'' = Some duel"
    by (simp add: duel_server_eq SessionManager_get_def)
  show ?thesis
    using h handler_refines_useAbility[OF h, of "''a''" "''p1''" "''p2''" no_trigger]
    by (simp add: useAbility_duel)
qed

text \<open>
  C2 (as amended). After an attack resolution, by \<^verbatim>\<open>Session.useAbility\<close> or by the socket
  handler, the defender's health is at least 0, and the attacker's health is unchanged
  when attacker and defender are different players.
\<close>

theorem resolution_health:
  assumes "SessionManager_get st sid = Some this" and "useAbility this f t rnd = Inr this'"
  shows "(\<exists>h. playerHealth this' t = Some h \<and> 0 \<le> h)
         \<and> (f \<noteq> t \<longrightarrow> playerHealth this' f = playerHealth this f)
         \<and> SessionManager_get (fst (on_useAbility st sock sid f t rnd)) sid = Some this'"
  using useAbility_health[OF assms(2)] on_useAbility_get[OF assms(1), of sock f t rnd] assms(2)
  by simp


theorem resolution_health_witness:
  "SessionManager_get duel_server ''s'' = Some duel
   \<and> useAbility duel ''p1'' ''p2'' no_trigger = Inr (setHealth duel ''p2'' 90)
   \<and> (\<exists>h. playerHealth (setHealth duel ''p2'' 90) ''p2'' = Some h \<and> 0 \<le> h)
   \<and> playerHealth (setHealth duel ''p2'' 90) ''p1'' = playerHealth duel ''p1''
   \<and> SessionManager_get (fst (on_useAbility duel_server ''a'' ''s'' ''p1'' ''p2'' no_trigger)) ''s''
       = Some (setHealth duel ''p2'' 90)"
proof -
  have h: "SessionManager_get duel_server ''s'' = Some duel"
    by (simp add: duel_server_eq SessionManager_get_def)
  show ?thesis
    using h useAbility_duel resolution_health[OF h useAbility_duel, of "''a''"]
    by simp
qed

text \<open>
  C2 as stated fails when a joined player attacks itself: the attacker is the defender,
  and its health drops from 100 to 90.
\<close>

theorem self_attack_changes_attacker_health:
  "playerHealth duel ''p1'' = Some 100
   \<and> resultHealth (useAbility duel ''p1'' ''p1'' no_trigger) ''p1'' = Some 90"
  unfolding useAbility_duel_self unfolding duel_eq
  by (simp add: playerHealth_def resultHealth_def setHealth_def)


lemma ability_ok_offense:
  "ability_ok a \<Longrightarrow> kind a = offense \<Longrightarrow> \<exists>offId. abilityId a = OffenseId offId"
  unfolding ability_ok_def by simp

lemma ability_ok_defense:
  "ability_ok a \<Longrightarrow> kind a \<noteq> offense \<Longrightarrow> \<exists>defId. abilityId a = DefenseId defId"
  unfolding ability_ok_def by (cases "abilityId a") auto

lemma kind_cases: "kind a \<noteq> offense \<longleftrightarrow> kind a = defense"
  by (cases "kind a") auto

lemma useAbility_self:
  assumes c: "map_of (players this) p = Some c" and ok: "ability_ok (ability c)"
  shows "\<exists>this'. useAbility this p p rnd = Inr this'
     \<and> playerHealth this' p =
         Some (if abilityId (ability c) = DefenseId HealUnder30
               then afterDamage (rAfterDamage rnd) (max 0 (health c - netDamageOf c c rnd))
               else max 0 (health c - netDamageOf c c rnd))"
proof (cases "kind (ability c) = offense")
  case True
  then obtain offId where "abilityId (ability c) = OffenseId offId"
    using ability_ok_offense[OF ok] by blast
  with True c show ?thesis
    unfolding useAbility_def playerHealth_def netDamageOf_def offenseAttack_def
    by (simp add: Let_def update_conv' max_def)
next
  case False
  then obtain defId where "abilityId (ability c) = DefenseId defId"
    using ability_ok_defense[OF ok] by blast
  with False c show ?thesis
    unfolding useAbility_def playerHealth_def netDamageOf_def offenseAttack_def
    by (auto simp: Let_def update_conv' max_def kind_cases)
qed

lemma on_useAbility_self_result:
  assumes g: "SessionManager_get st sid = Some this"
    and c: "map_of (players this) p = Some c" and ok: "ability_ok (ability c)"
  shows "\<exists>rr. roundResults sid (snd (on_useAbility st sock sid p p rnd)) = [rr]
     \<and> attackerId rr = p \<and> defenderId rr = p \<and> damageDealt rr = netDamageOf c c rnd"
proof (cases "kind (ability c) = offense")
  case True
  then obtain offId where "abilityId (ability c) = OffenseId offId"
    using ability_ok_offense[OF ok] by blast
  with True c g show ?thesis
    unfolding on_useAbility_def netDamageOf_def offenseAttack_def hasPlayer_def has_def
    by (simp add: Let_def max_def)
next
  case False
  then obtain defId where "abilityId (ability c) = DefenseId defId"
    using ability_ok_defense[OF ok] by blast
  with False c g show ?thesis
    unfolding on_useAbility_def netDamageOf_def offenseAttack_def hasPlayer_def has_def
    by (auto simp: Let_def max_def kind_cases)
qed

text \<open>
  C10 (as amended). A self-targeted attack is not rejected. For a joined player \<open>p\<close> (with
  an ability of the catalog), \<^verbatim>\<open>Session.useAbility(p, p)\<close> returns normally and the socket
  handler broadcasts a round result with \<open>p\<close> as attacker and as defender; the damage dealt
  is the net damage computed from \<open>p\<close>'s own attack power against \<open>p\<close>'s own defense power;
  \<open>p\<close>'s health becomes its old health minus that damage, floored at 0, and is then passed
  through the heal hook when \<open>p\<close>'s ability is \<^verbatim>\<open>healUnder30\<close>. So the health is reduced by
  exactly the net damage when the damage does not exceed the health and the heal does not
  trigger.
\<close>

theorem self_attack_resolves:
  assumes "SessionManager_get st sid = Some this"
    and "map_of (players this) p = Some c" and "ability_ok (ability c)"
  shows "\<exists>this' rr.
       useAbility this p p rnd = Inr this'
     \<and> SessionManager_get (fst (on_useAbility st sock sid p p rnd)) sid = Some this'
     \<and> roundResults sid (snd (on_useAbility st sock sid p p rnd)) = [rr]
     \<and> attackerId rr = p \<and> defenderId rr = p \<and> damageDealt rr = netDamageOf c c rnd
     \<and> playerHealth this' p =
         Some (if abilityId (ability c) = DefenseId HealUnder30
               then afterDamage (rAfterDamage rnd) (max 0 (health c - netDamageOf c c rnd))
               else max 0 (health c - netDamageOf c c rnd))
     \<and> (netDamageOf c c rnd \<le> health c
          \<and> (abilityId (ability c) = DefenseId HealUnder30 \<longrightarrow> 0.25 \<le> rAfterDamage rnd)
          \<longrightarrow> playerHealth this' p = Some (health c - netDamageOf c c rnd))"
proof -
  obtain this' where 1: "useAbility this p p rnd = Inr this'"
    and 2: "playerHealth this' p =
         Some (if abilityId (ability c) = DefenseId HealUnder30
               then afterDamage (rAfterDamage rnd) (max 0 (health c - netDamageOf c c rnd))
               else max 0 (health c - netDamageOf c c rnd))"
    using useAbility_self[OF assms(2,3)] by blast
  obtain rr where 3: "roundResults sid (snd (on_useAbility st sock sid p p rnd)) = [rr]"
    "attackerId rr = p" "defenderId rr = p" "damageDealt rr = netDamageOf c c rnd"
    using on_useAbility_self_result[OF assms] by blast
  have 4: "SessionManager_get (fst (on_useAbility st sock sid p p rnd)) sid = Some this'"
    using on_useAbility_get[OF assms(1), of sock p p rnd] 1 by simp
  have 5: "netDamageOf c c rnd \<le> health c
          \<and> (abilityId (ability c) = DefenseId HealUnder30 \<longrightarrow> 0.25 \<le> rAfterDamage rnd)
          \<longrightarrow> playerHealth this' p = Some (health c - netDamageOf c c rnd)"
    using 2 by (auto simp: afterDamage_def max_def)
  from 1 2 3 4 5 show ?thesis by blast
qed

theorem self_attack_resolves_witness:
  "SessionManager_get duel_server ''s'' = Some duel
   \<and> map_of (players duel) ''p1'' \<noteq> None
   \<and> ability_ok (ability (the (map_of (players duel) ''p1'')))
   \<and> netDamageOf (the (map_of (players duel) ''p1'')) (the (map_of (players duel) ''p1'')) no_trigger = 10
   \<and> (\<exists>this' rr.
         useAbility duel ''p1'' ''p1'' no_trigger = Inr this'
       \<and> SessionManager_get (fst (on_useAbility duel_server ''a'' ''s'' ''p1'' ''p1'' no_trigger)) ''s''
           = Some this'
       \<and> roundResults ''s'' (snd (on_useAbility duel_server ''a'' ''s'' ''p1'' ''p1'' no_trigger)) = [rr]
       \<and> attackerId rr = ''p1'' \<and> defenderId rr = ''p1'' \<and> damageDealt rr = 10
       \<and> playerHealth this' ''p1'' = Some 90)"
proof -
  have h1: "SessionManager_get duel_server ''s'' = Some duel"
    by (simp add: duel_server_eq SessionManager_get_def)
  have h2: "map_of (players duel) ''p1'' = Some (the (map_of (players duel) ''p1''))"
    unfolding duel_eq by simp
  have h3: "ability_ok (ability (the (map_of (players duel) ''p1'')))"
    unfolding duel_eq by (simp add: ability_ok_def Ability_all_def)
  have nd: "netDamageOf (the (map_of (players duel) ''p1'')) (the (map_of (players duel) ''p1'')) no_trigger = 10"
    unfolding duel_eq
    by (simp add: netDamageOf_def no_trigger_def Ability_all_def onAttack_div Let_def)
  have ab: "abilityId (ability (the (map_of (players duel) ''p1''))) \<noteq> DefenseId HealUnder30"
    "health (the (map_of (players duel) ''p1'')) = 100"
    unfolding duel_eq by (simp_all add: Ability_all_def)
  show ?thesis
    using h1 h2 h3 nd ab self_attack_resolves[OF h1 h2 h3, where rnd = no_trigger and sock = "''a''"]
    by auto
qed

text \<open>
  C1. Scenario A: the attacker has attack power 20, the defender has defense power 10 and
  health 100, and no hook triggers (the random draws of \<^verbatim>\<open>onAttack\<close> and \<^verbatim>\<open>onDefend\<close> are
  at least 0.25). The handler broadcasts one round result, with damage dealt 10, no
  ability used, and health 90 for the defender.
\<close>

theorem scenario_no_trigger:
  assumes g: "SessionManager_get st sid = Some sess"
    and a: "map_of (players sess) P1 = Some a" and d: "map_of (players sess) P2 = Some d"
    and stats: "attackPower a = 20" "defensePower d = 10" "health d = 100"
    and ok: "ability_ok (ability a)"
    and r: "0.25 \<le> rOnAttack rnd" "0.25 \<le> rOnDefend rnd"
  shows "\<exists>rr. roundResults sid (snd (on_useAbility st sock sid P1 P2 rnd)) = [rr]
     \<and> damageDealt rr = 10 \<and> abilityUsed rr = None \<and> map_of (healthAfter rr) P2 = Some 90"
proof -
  have atk: "(if kind (ability a) = offense
              then offenseAttack (ability a) (rOnAttack rnd) (attackPower a)
              else Inr (attackPower a)) = Inr 20"
    using ability_ok_offense[OF ok] r(1) stats(1)
    by (auto simp: offenseAttack_def onAttack_div)
  show ?thesis
    using g a d r(2)
    unfolding on_useAbility_def hasPlayer_def has_def
    by (simp add: atk[unfolded stats] stats onDefend_div afterDamage_def Let_def update_conv')
qed


theorem scenario_no_trigger_witness:
  "SessionManager_get duel_server ''s'' = Some duel
   \<and> attackPower (the (map_of (players duel) ''p1'')) = 20
   \<and> defensePower (the (map_of (players duel) ''p2'')) = 10
   \<and> health (the (map_of (players duel) ''p2'')) = 100
   \<and> (\<exists>rr. roundResults ''s'' (snd (on_useAbility duel_server ''a'' ''s'' ''p1'' ''p2'' no_trigger))
              = [rr]
         \<and> damageDealt rr = 10 \<and> abilityUsed rr = None
         \<and> map_of (healthAfter rr) ''p2'' = Some 90)"
proof -
  have h1: "SessionManager_get duel_server ''s'' = Some duel"
    by (simp add: duel_server_eq SessionManager_get_def)
  have h2: "map_of (players duel) ''p1'' = Some (the (map_of (players duel) ''p1''))"
    unfolding duel_eq by simp
  have h3: "map_of (players duel) ''p2'' = Some (the (map_of (players duel) ''p2''))"
    unfolding duel_eq by simp
  have h4: "attackPower (the (map_of (players duel) ''p1'')) = 20"
    "defensePower (the (map_of (players duel) ''p2'')) = 10"
    "health (the (map_of (players duel) ''p2'')) = 100"
    unfolding duel_eq by simp_all
  have h5: "ability_ok (ability (the (map_of (players duel) ''p1'')))"
    unfolding duel_eq by (simp add: ability_ok_def Ability_all_def)
  have h6: "0.25 \<le> rOnAttack no_trigger" "0.25 \<le> rOnDefend no_trigger"
    by (simp_all add: no_trigger_def)
  show ?thesis
    using h1 h4 scenario_no_trigger[OF h1 h2 h3 h4 h5 h6, of "''a''"]
    by simp
qed

section \<open>Invariants of the sessions of a running server\<close>

lemma find_Some_mem: "find P xs = Some x \<Longrightarrow> x \<in> set xs \<and> P x"
  by (induction xs) (auto split: if_splits)

lemma Ability_all_ok: "a \<in> set Ability_all \<Longrightarrow> ability_ok a"
  unfolding Ability_all_def ability_ok_def by auto

lemma findById_ok: "findById a = Some abil \<Longrightarrow> ability_ok abil"
  unfolding findById_def using find_Some_mem Ability_all_ok by fast

lemma snd_set_update: "snd ` set (AList.update k v xs) \<subseteq> insert v (snd ` set xs)"
  by (induction xs) auto

lemma set_delete_subset: "set (AList.delete k xs) \<subseteq> set xs"
  by (induction xs) auto

lemma bothConnected_keys:
  "bothConnected s \<Longrightarrow> fst ` set (players s) \<subseteq> snd ` set (sockets s)"
  unfolding bothConnected_def by (auto simp: list_all_iff split: if_splits)

lemma bothConnected_cong:
  "map fst (players s') = map fst (players s) \<Longrightarrow> sockets s' = sockets s
   \<Longrightarrow> bothConnected s' = bothConnected s"
  unfolding bothConnected_def by (metis length_map)

lemma bothConnected_mono:
  assumes "players s' = players s" "set (sockets s') \<subseteq> set (sockets s)" "bothConnected s'"
  shows "bothConnected s"
proof -
  have "snd ` set (sockets s') \<subseteq> snd ` set (sockets s)"
    using assms(2) by (rule image_mono)
  then show ?thesis
    using assms(1,3) unfolding bothConnected_def
    by (auto simp: list_all_iff split: if_splits)
qed

lemma session_ok_new: "session_ok (new_Session i p1 p2)"
  unfolding session_ok_def new_Session_def by simp

lemma session_ok_addPlayer:
  assumes "session_ok s"
  shows "session_ok (snd (addPlayer s c a p rAtk rDef))"
proof -
  let ?s' = "snd (addPlayer s c a p rAtk rDef)"
  have ok: "\<forall>c \<in> snd ` set (players s). ability_ok (ability c)"
    and sub: "snd ` set (sockets s) \<subseteq> fst ` set (players s)"
    and tm: "disconnectTimer s \<noteq> None \<longrightarrow> \<not> bothConnected s"
    using assms unfolding session_ok_def by auto
  consider (same) "players ?s' = players s"
    | (upd) pid t abil where "findById a = Some abil"
        "players ?s' = AList.update pid (new_Character t abil rAtk rDef) (players s)"
    using addPlayer_players[of s c a p rAtk rDef] by blast
  then show ?thesis
  proof cases
    case same
    then have "bothConnected ?s' = bothConnected s"
      by (intro bothConnected_cong) simp_all
    then show ?thesis
      using same ok sub tm unfolding session_ok_def by simp
  next
    case upd
    have 1: "\<forall>c \<in> snd ` set (players ?s'). ability_ok (ability c)"
    proof
      fix ch assume "ch \<in> snd ` set (players ?s')"
      then have "ch = new_Character t abil rAtk rDef \<or> ch \<in> snd ` set (players s)"
        using snd_set_update[of pid "new_Character t abil rAtk rDef" "players s"] upd(2) by auto
      then show "ability_ok (ability ch)"
        using ok findById_ok[OF upd(1)] by (auto simp: new_Character_def)
    qed
    have 2: "snd ` set (sockets ?s') \<subseteq> fst ` set (players ?s')"
      using sub upd(2) by (auto simp: set_update_fst)
    have 3: "disconnectTimer ?s' \<noteq> None \<longrightarrow> \<not> bothConnected ?s'"
    proof (cases "pid \<in> fst ` set (players s)")
      case True
      then have "map fst (players ?s') = map fst (players s)"
        using upd(2) by (simp add: update_keys)
      then have "bothConnected ?s' = bothConnected s"
        by (intro bothConnected_cong) simp_all
      then show ?thesis using tm by simp
    next
      case False
      have "\<not> bothConnected ?s'"
      proof
        assume "bothConnected ?s'"
        then have "fst ` set (players ?s') \<subseteq> snd ` set (sockets ?s')"
          by (rule bothConnected_keys)
        then have "pid \<in> snd ` set (sockets s)"
          using upd(2) by (auto simp: set_update_fst)
        then show False using sub False by auto
      qed
      then show ?thesis by simp
    qed
    from 1 2 3 show ?thesis unfolding session_ok_def by simp
  qed
qed

lemma session_ok_attachSocket:
  assumes "session_ok s" "hasPlayer s y"
  shows "session_ok (attachSocket s x y)"
proof -
  have "y \<in> fst ` set (players s)" "snd ` set (sockets s) \<subseteq> fst ` set (players s)"
    using assms unfolding session_ok_def hasPlayer_def has_iff by simp_all
  then have 2: "snd ` set (AList.update x y (sockets s)) \<subseteq> fst ` set (players s)"
    using snd_set_update[of x y "sockets s"] by blast
  have 3: "disconnectTimer (attachSocket s x y) \<noteq> None \<longrightarrow> \<not> bothConnected (attachSocket s x y)"
    unfolding attachSocket_def by (auto simp: Let_def bothConnected_def)
  have 1: "\<forall>c \<in> snd ` set (players s). ability_ok (ability c)"
    using assms(1) unfolding session_ok_def by simp
  show ?thesis
    unfolding session_ok_def using 1 2 3 by simp
qed

lemma session_ok_detachSocket:
  assumes "session_ok s"
  shows "session_ok (snd (detachSocket s x))"
proof -
  let ?s1 = "s\<lparr>sockets := AList.delete x (sockets s)\<rparr>"
  have sub: "set (sockets ?s1) \<subseteq> set (sockets s)"
    using set_delete_subset[of x "sockets s"] by simp
  have mono: "bothConnected ?s1 \<Longrightarrow> bothConnected s"
    by (rule bothConnected_mono[OF _ sub]) simp
  have bc: "\<And>t. bothConnected (?s1\<lparr>disconnectTimer := t\<rparr>) = bothConnected ?s1"
    by (simp add: bothConnected_def)
  have 3: "disconnectTimer (snd (detachSocket s x)) \<noteq> None
             \<longrightarrow> \<not> bothConnected (snd (detachSocket s x))"
    using assms mono unfolding detachSocket_def session_ok_def
    by (auto simp: Let_def bc)
  have "snd ` set (AList.delete x (sockets s)) \<subseteq> snd ` set (sockets s)"
    using set_delete_subset[of x "sockets s"] by (rule image_mono)
  moreover have "snd ` set (sockets s) \<subseteq> fst ` set (players s)"
    using assms unfolding session_ok_def by simp
  ultimately have 2: "snd ` set (sockets (snd (detachSocket s x)))
                        \<subseteq> fst ` set (players (snd (detachSocket s x)))"
    by simp
  have 1: "\<forall>c \<in> snd ` set (players (snd (detachSocket s x))). ability_ok (ability c)"
    using assms unfolding session_ok_def by simp
  show ?thesis
    unfolding session_ok_def using 1 2 3 by blast
qed

lemma useAbility_players:
  assumes "useAbility s f t rnd = Inr s'"
  shows "\<exists>d h. map_of (players s) t = Some d
           \<and> s' = s\<lparr>players := AList.update t (d\<lparr>health := h\<rparr>) (players s)\<rparr>"
  using assms unfolding useAbility_def
  by (auto simp: Let_def split: option.splits sum.splits)

lemma session_ok_useAbility:
  assumes "useAbility s f t rnd = Inr s'" "session_ok s"
  shows "session_ok s'"
proof -
  obtain d h where d: "map_of (players s) t = Some d"
    and s': "s' = s\<lparr>players := AList.update t (d\<lparr>health := h\<rparr>) (players s)\<rparr>"
    using useAbility_players[OF assms(1)] by blast
  have dm: "(t, d) \<in> set (players s)" using d by (rule map_of_SomeD)
  then have tk: "t \<in> fst ` set (players s)" by force
  have keys: "map fst (players s') = map fst (players s)"
    using tk s' by (simp add: update_keys)
  have bc: "bothConnected s' = bothConnected s"
    by (rule bothConnected_cong[OF keys]) (simp add: s')
  have 1: "\<forall>c \<in> snd ` set (players s'). ability_ok (ability c)"
  proof
    fix ch assume "ch \<in> snd ` set (players s')"
    then have "ch = d\<lparr>health := h\<rparr> \<or> ch \<in> snd ` set (players s)"
      using snd_set_update[of t "d\<lparr>health := h\<rparr>" "players s"] s' by auto
    moreover have "ability_ok (ability d)"
      using assms(2) dm unfolding session_ok_def by force
    ultimately show "ability_ok (ability ch)"
      using assms(2) unfolding session_ok_def by auto
  qed
  have 2: "snd ` set (sockets s') \<subseteq> fst ` set (players s')"
    using assms(2) s' unfolding session_ok_def by (auto simp: set_update_fst)
  show ?thesis
    using 1 2 bc assms(2) s' unfolding session_ok_def by simp
qed


section \<open>The running server\<close>

lemma server_ok_get: "server_ok st \<Longrightarrow> SessionManager_get st i = Some s \<Longrightarrow> session_ok s"
  unfolding server_ok_def SessionManager_get_def
  by (metis image_eqI map_of_SomeD snd_conv)

lemma server_ok_same: "server_ok st \<Longrightarrow> sessions st' = sessions st \<Longrightarrow> server_ok st'"
  unfolding server_ok_def by simp

lemma server_ok_update:
  assumes "server_ok st" "session_ok s" "sessions st' = AList.update i s (sessions st)"
  shows "server_ok st'"
proof -
  have "snd ` set (sessions st') \<subseteq> insert s (snd ` set (sessions st))"
    using snd_set_update[of i s "sessions st"] assms(3) by simp
  then show ?thesis using assms(1,2) unfolding server_ok_def by blast
qed

lemma server_ok_delete:
  assumes "server_ok st" "sessions st' = AList.delete i (sessions st)"
  shows "server_ok st'"
proof -
  have "snd ` set (sessions st') \<subseteq> snd ` set (sessions st)"
    using set_delete_subset[of i "sessions st"] assms(2) by (simp add: image_mono)
  then show ?thesis using assms(1) unfolding server_ok_def by blast
qed

lemma server_ok_initial: "server_ok initial_Server"
  unfolding server_ok_def initial_Server_def by simp

lemma joinGameHandler_sessions:
  "sessions (fst (joinGameHandler st i c a p rAtk rDef)) =
     (case SessionManager_get st i of
        None \<Rightarrow> sessions st
      | Some sess \<Rightarrow> AList.update i (snd (addPlayer sess c a p rAtk rDef)) (sessions st))"
  unfolding joinGameHandler_def
  by (auto split: option.splits prod.splits sum.splits)

lemma on_join_sessions:
  "sessions (fst (on_join st sock i pid)) =
     (case SessionManager_get st i of
        None \<Rightarrow> sessions st
      | Some sess \<Rightarrow>
          if hasPlayer sess pid then AList.update i (attachSocket sess sock pid) (sessions st)
          else sessions st)"
  unfolding on_join_def by (auto simp: Let_def split: option.splits)

lemma on_disconnect_sessions:
  "sessions (fst (on_disconnect st sock)) =
     (case map_of (socketToSession st) sock of
        None \<Rightarrow> sessions st
      | Some i \<Rightarrow>
          (case SessionManager_get st i of
             None \<Rightarrow> sessions st
           | Some sess \<Rightarrow> AList.update i (snd (detachSocket sess sock)) (sessions st)))"
  unfolding on_disconnect_def by (auto simp: Let_def split: option.splits prod.splits)

lemma step_server_ok:
  assumes "server_ok st"
  shows "server_ok (fst (step st e))"
proof (cases e)
  case (CreateGame i p1 p2)
  show ?thesis
    by (rule server_ok_update[OF assms session_ok_new[of i p1 p2], of _ i])
       (simp add: CreateGame createGameHandler_def SessionManager_create_def)
next
  case (GetSlots i)
  then show ?thesis
    using assms by (simp add: getAvailableSlotsHandler_def split: option.splits)
next
  case (JoinGame i c a p rAtk rDef)
  show ?thesis
  proof (cases "SessionManager_get st i")
    case None
    then show ?thesis
      using assms JoinGame by (auto intro: server_ok_same simp: joinGameHandler_sessions)
  next
    case (Some sess)
    have "session_ok (snd (addPlayer sess c a p rAtk rDef))"
      using server_ok_get[OF assms Some] by (rule session_ok_addPlayer)
    then show ?thesis
      using assms JoinGame Some
      by (auto intro: server_ok_update simp: joinGameHandler_sessions)
  qed
next
  case (SocketJoin sock i pid)
  show ?thesis
  proof (cases "SessionManager_get st i")
    case None
    then show ?thesis
      using assms SocketJoin by (auto intro: server_ok_same simp: on_join_sessions)
  next
    case (Some sess)
    show ?thesis
    proof (cases "hasPlayer sess pid")
      case True
      have "session_ok (attachSocket sess sock pid)"
        using server_ok_get[OF assms Some] True by (rule session_ok_attachSocket)
      then show ?thesis
        using assms SocketJoin Some True
        by (auto intro: server_ok_update simp: on_join_sessions)
    next
      case False
      then show ?thesis
        using assms SocketJoin Some by (auto intro: server_ok_same simp: on_join_sessions)
    qed
  qed
next
  case (SocketUseAbility sock i f t rnd)
  show ?thesis
  proof (cases "SessionManager_get st i")
    case None
    then show ?thesis
      using assms SocketUseAbility by (simp add: on_useAbility_def)
  next
    case (Some sess)
    show ?thesis
    proof (cases "useAbility sess f t rnd")
      case (Inl err)
      then show ?thesis
        using assms SocketUseAbility on_useAbility_sessions[OF Some, of sock f t rnd]
        by (auto intro: server_ok_same)
    next
      case (Inr sess')
      have "session_ok sess'"
        using Inr server_ok_get[OF assms Some] by (rule session_ok_useAbility)
      then show ?thesis
        using assms SocketUseAbility Inr on_useAbility_sessions[OF Some, of sock f t rnd]
        by (auto intro: server_ok_update)
    qed
  qed
next
  case (SocketDisconnect sock)
  show ?thesis
  proof (cases "map_of (socketToSession st) sock")
    case None
    then show ?thesis
      using assms SocketDisconnect by (auto intro: server_ok_same simp: on_disconnect_sessions)
  next
    case (Some i)
    note i = Some
    show ?thesis
    proof (cases "SessionManager_get st i")
      case None
      then show ?thesis
        using assms SocketDisconnect i
        by (auto intro: server_ok_same simp: on_disconnect_sessions)
    next
      case (Some sess)
      have "session_ok (snd (detachSocket sess sock))"
        using server_ok_get[OF assms Some] by (rule session_ok_detachSocket)
      then show ?thesis
        using assms SocketDisconnect i Some
        by (auto intro: server_ok_update simp: on_disconnect_sessions)
    qed
  qed
next
  case (PendingJoinTimerFires i)
  then show ?thesis
    using assms
    by (auto simp: pendingJoinTimer_callback_def SessionManager_delete_def
             intro: server_ok_delete split: option.splits)
next
  case (DisconnectTimerFires i)
  then show ?thesis
    using assms
    by (auto simp: disconnectTimer_callback_def SessionManager_delete_def
             intro: server_ok_delete split: option.splits)
qed

lemma run_Cons_fst: "fst (run st (e # es)) = fst (run (fst (step st e)) es)"
  by (simp add: case_prod_unfold Let_def)

lemma run_Cons_snd:
  "snd (run st (e # es)) = snd (step st e) @ snd (run (fst (step st e)) es)"
  by (simp add: case_prod_unfold Let_def)

lemma run_server_ok: "server_ok st \<Longrightarrow> server_ok (fst (run st evs))"
proof (induction evs arbitrary: st)
  case Nil
  then show ?case by simp
next
  case (Cons e evs)
  have "server_ok (fst (step st e))" using Cons.prems by (rule step_server_ok)
  then have "server_ok (fst (run (fst (step st e)) evs))" by (rule Cons.IH)
  then show ?case by (simp only: run_Cons_fst)
qed


lemma roundResults_append:
  "roundResults i (xs @ ys) = roundResults i xs @ roundResults i ys"
  by (induction i xs rule: roundResults.induct) simp_all

lemma counted_same:
  "sessionRounds (fst r) = sessionRounds st \<Longrightarrow> roundResults i (snd r) = [] \<Longrightarrow> counted i st r"
  unfolding counted_def storedRound_def by simp

lemma on_join_counted: "counted i st (on_join st sock j pid)"
  unfolding counted_def on_join_def storedRound_def
  by (auto simp: Let_def has_def update_conv' split: option.splits)

lemma on_disconnect_counted: "counted i st (on_disconnect st sock)"
  by (rule counted_same)
     (auto simp: on_disconnect_def Let_def split: option.splits prod.splits)

lemma joinGameHandler_counted: "counted i st (joinGameHandler st j c a p rAtk rDef)"
  by (rule counted_same)
     (auto simp: joinGameHandler_def split: option.splits prod.splits sum.splits)

lemma on_useAbility_counted:
  assumes "server_ok st"
  shows "counted i st (on_useAbility st sock j f t rnd)"
proof (cases "SessionManager_get st j")
  case None
  then show ?thesis
    by (intro counted_same) (simp_all add: on_useAbility_def)
next
  case (Some sess)
  show ?thesis
  proof (cases "hasPlayer sess f \<and> hasPlayer sess t")
    case False
    then show ?thesis
      using Some by (intro counted_same) (auto simp: on_useAbility_def)
  next
    case True
    then obtain a d where a: "map_of (players sess) f = Some a"
      and d: "map_of (players sess) t = Some d"
      unfolding hasPlayer_def has_def by auto
    have "session_ok sess" using assms Some by (rule server_ok_get)
    then have ok: "ability_ok (ability a)"
      using a unfolding session_ok_def by (metis image_eqI map_of_SomeD snd_conv)
    have "\<exists>av. (if kind (ability a) = offense
        then offenseAttack (ability a) (rOnAttack rnd) (attackPower a)
        else Inr (attackPower a)) = Inr av"
    proof (cases "kind (ability a) = offense")
      case True
      then obtain offId where "abilityId (ability a) = OffenseId offId"
        using ability_ok_offense[OF ok] by blast
      with True show ?thesis by (simp add: offenseAttack_def)
    next
      case False
      then show ?thesis by simp
    qed
    then obtain av where av:
      "(if kind (ability a) = offense
        then offenseAttack (ability a) (rOnAttack rnd) (attackPower a)
        else Inr (attackPower a)) = Inr av"
      by blast
    show ?thesis
    proof (cases "j = i")
      case True
      show ?thesis
        using Some a d True \<open>hasPlayer sess f \<and> hasPlayer sess t\<close>
        unfolding counted_def on_useAbility_def storedRound_def
        by (simp add: av Let_def update_conv' split: option.splits)
    next
      case False
      show ?thesis
        using Some a d False \<open>hasPlayer sess f \<and> hasPlayer sess t\<close>
        unfolding counted_def on_useAbility_def storedRound_def
        by (simp add: av Let_def update_conv' split: option.splits)
    qed
  qed
qed

lemma step_counted:
  assumes "server_ok st"
  shows "counted i st (step st e)"
proof (cases e)
  case (CreateGame j p1 p2)
  then show ?thesis
    by (auto intro!: counted_same simp: createGameHandler_def SessionManager_create_def)
next
  case (GetSlots j)
  then show ?thesis
    by (auto intro!: counted_same simp: getAvailableSlotsHandler_def split: option.splits)
next
  case (JoinGame j c a p rAtk rDef)
  then show ?thesis by (simp add: joinGameHandler_counted)
next
  case (SocketJoin sock j pid)
  then show ?thesis by (simp add: on_join_counted)
next
  case (SocketUseAbility sock j f t rnd)
  then show ?thesis using assms by (simp add: on_useAbility_counted)
next
  case (SocketDisconnect sock)
  then show ?thesis by (simp add: on_disconnect_counted)
next
  case (PendingJoinTimerFires j)
  then show ?thesis
    by (auto intro!: counted_same
             simp: pendingJoinTimer_callback_def SessionManager_delete_def split: option.splits)
next
  case (DisconnectTimerFires j)
  then show ?thesis
    by (auto intro!: counted_same
             simp: disconnectTimer_callback_def SessionManager_delete_def split: option.splits)
qed

lemma upt_shift:
  "map (\<lambda>k. c + 1 + int k) [1..<Suc n] = map (\<lambda>k. c + int k) [2..<Suc (Suc n)]"
proof -
  have "[2..<Suc (Suc n)] = map Suc [1..<Suc n]"
    by (simp add: map_Suc_upt numeral_2_eq_2)
  then show ?thesis by (simp add: comp_def)
qed

lemma run_counted:
  assumes "server_ok st"
  shows "storedRound (fst (run st evs)) i
           = storedRound st i + int (length (roundResults i (snd (run st evs))))
         \<and> map roundNumber (roundResults i (snd (run st evs)))
           = map (\<lambda>k. storedRound st i + int k)
               [1..<Suc (length (roundResults i (snd (run st evs))))]"
  using assms
proof (induction evs arbitrary: st)
  case Nil
  then show ?case by simp
next
  case (Cons e evs)
  let ?st1 = "fst (step st e)"
  let ?n = "length (roundResults i (snd (run ?st1 evs)))"
  have ok1: "server_ok ?st1" using Cons.prems by (rule step_server_ok)
  note IH = Cons.IH[OF ok1]
  have c: "counted i st (step st e)" using Cons.prems by (rule step_counted)
  have f: "fst (run st (e # evs)) = fst (run ?st1 evs)" by (rule run_Cons_fst)
  have r: "roundResults i (snd (run st (e # evs)))
             = roundResults i (snd (step st e)) @ roundResults i (snd (run ?st1 evs))"
    by (simp only: run_Cons_snd roundResults_append)
  show ?case
  proof (cases "roundResults i (snd (step st e)) = []")
    case True
    then have "storedRound ?st1 i = storedRound st i"
      using c unfolding counted_def by auto
    with True IH show ?thesis
      unfolding f r by (simp del: run.simps upt_Suc)
  next
    case False
    then obtain rr where rr: "roundResults i (snd (step st e)) = [rr]"
      "roundNumber rr = storedRound st i + 1" "storedRound ?st1 i = storedRound st i + 1"
      using c unfolding counted_def by auto
    have "[Suc 0..<Suc (Suc ?n)] = Suc 0 # [Suc (Suc 0)..<Suc (Suc ?n)]"
      by (rule upt_conv_Cons) simp
    then have up: "[Suc 0..<Suc (Suc ?n)] = Suc 0 # [2..<Suc (Suc ?n)]"
      by (simp only: numeral_2_eq_2)
    show ?thesis
      unfolding f r rr(1)
      using IH rr(2,3) upt_shift[of "storedRound st i" ?n]
      by (simp add: up del: run.simps upt_Suc)
  qed
qed

lemma run_append_fst: "fst (run st (xs @ ys)) = fst (run (fst (run st xs)) ys)"
proof (induction xs arbitrary: st)
  case Nil
  show ?case by simp
next
  case (Cons x xs)
  show ?case
    unfolding append_Cons run_Cons_fst by (rule Cons.IH)
qed

lemma run_append_snd:
  "snd (run st (xs @ ys)) = snd (run st xs) @ snd (run (fst (run st xs)) ys)"
proof (induction xs arbitrary: st)
  case Nil
  show ?case by simp
next
  case (Cons x xs)
  show ?case
    unfolding append_Cons run_Cons_fst run_Cons_snd by (simp only: Cons.IH append_assoc)
qed

lemma duel_events_out: "roundResults i (snd (run initial_Server duel_events)) = []"
  unfolding duel_events_def
  by (simp add: createGameHandler_def joinGameHandler_def Let_def
        split: option.splits prod.splits sum.splits)

lemma duel_fight_results:
  "length (roundResults ''s'' (snd (run duel_server duel_fight))) = 2"
proof -
  have g: "SessionManager_get duel_server ''s'' = Some duel"
    by (simp add: duel_server_eq SessionManager_get_def)
  have g2: "SessionManager_get (fst (on_useAbility duel_server ''a'' ''s'' ''p1'' ''p2'' no_trigger)) ''s''
          = Some (setHealth duel ''p2'' 90)"
    using on_useAbility_get[OF g, of "''a''" "''p1''" "''p2''" no_trigger]
    by (simp add: useAbility_duel)
  have u2: "useAbility (setHealth duel ''p2'' 90) ''p2'' ''p1'' no_trigger
              = Inr (setHealth (setHealth duel ''p2'' 90) ''p1'' 90)"
    unfolding duel_eq
    by (simp add: useAbility_def setHealth_def no_trigger_def Ability_all_def offenseAttack_def
        onAttack_div onDefend_div afterDamage_def Let_def)
  show ?thesis
    unfolding duel_fight_def
    using on_useAbility_results[OF g, of "''a''" "''p1''" "''p2''" no_trigger]
      on_useAbility_results[OF g2, of "''b''" "''p2''" "''p1''" no_trigger]
    by (simp add: useAbility_duel u2 roundResults_append Let_def case_prod_unfold)
qed

text \<open>
  C3. From the start of the server and for every sequence of events (session creation,
  HTTP joins, socket joins, attacks, disconnects, timers), the round counter of a session,
  read as the handler reads it (a missing entry is 0), equals the number of round results
  broadcast for that session, and those results are numbered 1, 2, 3, ... in order: it
  starts at 0, each resolved attack adds exactly 1, and no other event changes it.
\<close>

theorem round_counter_counts_resolutions:
  assumes "run initial_Server evs = (st, out)"
  shows "storedRound st i = int (length (roundResults i out))
         \<and> map roundNumber (roundResults i out)
             = map int [1..<Suc (length (roundResults i out))]"
proof -
  have 0: "storedRound initial_Server i = 0"
    by (simp add: storedRound_def initial_Server_def)
  show ?thesis
    using run_counted[OF server_ok_initial, of evs i] assms by (simp add: 0)
qed

theorem round_counter_counts_resolutions_witness:
  "storedRound (fst (run initial_Server (duel_events @ duel_fight))) ''s'' = 2
   \<and> map roundNumber (roundResults ''s'' (snd (run initial_Server (duel_events @ duel_fight))))
       = [1, 2]"
proof -
  have n: "length (roundResults ''s'' (snd (run initial_Server (duel_events @ duel_fight)))) = 2"
    unfolding run_append_snd roundResults_append duel_events_out
    using duel_fight_results by (simp add: duel_server_def)
  have "[1..<Suc 2] = [1, 2]" by (simp add: upt_rec)
  then show ?thesis
    using round_counter_counts_resolutions[of "duel_events @ duel_fight"
        "fst (run initial_Server (duel_events @ duel_fight))"
        "snd (run initial_Server (duel_events @ duel_fight))" "''s''"] n
    by simp
qed

section \<open>Timers\<close>

lemma duel_dropped_eq:
  "fst (run duel_server duel_dropped) =
     \<lparr>sessions = [(''s'', duel\<lparr>sockets := [(''a'', ''p1'')], disconnectTimer := Some 60000\<rparr>)],
      socketToSession = [(''a'', ''s'')], sessionRounds = [(''s'', 0)]\<rparr>"
  unfolding duel_dropped_def duel_server_eq unfolding duel_eq
  by (simp add: on_join_def on_disconnect_def SessionManager_get_def hasPlayer_def has_def
      attachSocket_def detachSocket_def bothConnected_def serialize_def Let_def)

text \<open>
  C5 (as amended). In every state the server reaches through its routes, socket handlers
  and timers: the pending-join timer deletes a session only if fewer than two players have
  joined when it fires (its callback re-checks, and is a no-op otherwise); the disconnect
  timer deletes a session only if the session is not both-connected when it fires. The
  disconnect callback itself makes no check: \<^verbatim>\<open>attachSocket\<close> cancels the timer when both
  players become connected, and the socket handler attaches a socket only to a joined
  player.
\<close>

theorem timers_delete_only_when_justified:
  assumes "run initial_Server evs = (st, out)" and "SessionManager_get st i = Some this"
  shows "(SessionManager_get (fst (step st (PendingJoinTimerFires i))) i = None
            \<longrightarrow> length (players this) < 2)
       \<and> (2 \<le> length (players this) \<longrightarrow> pendingJoinTimer_callback this st = st)
       \<and> (SessionManager_get (fst (step st (DisconnectTimerFires i))) i = None
            \<longrightarrow> \<not> bothConnected this)"
proof -
  have "server_ok st"
    using run_server_ok[OF server_ok_initial, of evs] assms(1) by simp
  then have "session_ok this" using assms(2) by (rule server_ok_get)
  then have t: "disconnectTimer this \<noteq> None \<longrightarrow> \<not> bothConnected this"
    unfolding session_ok_def by simp
  have 1: "SessionManager_get (fst (step st (PendingJoinTimerFires i))) i = None
            \<longrightarrow> length (players this) < 2"
    using assms(2) by (auto simp: pendingJoinTimer_callback_def split: if_splits)
  have 2: "2 \<le> length (players this) \<longrightarrow> pendingJoinTimer_callback this st = st"
    by (simp add: pendingJoinTimer_callback_def)
  have 3: "SessionManager_get (fst (step st (DisconnectTimerFires i))) i = None
            \<longrightarrow> \<not> bothConnected this"
    using assms(2) t by (auto split: if_splits)
  from 1 2 3 show ?thesis by blast
qed

theorem timers_delete_only_when_justified_witness:
  "SessionManager_get (fst (run initial_Server (duel_events @ duel_dropped))) ''s''
     = Some (duel\<lparr>sockets := [(''a'', ''p1'')], disconnectTimer := Some 60000\<rparr>)
   \<and> SessionManager_get
         (fst (step (fst (run initial_Server (duel_events @ duel_dropped)))
                 (DisconnectTimerFires ''s''))) ''s'' = None
   \<and> \<not> bothConnected (duel\<lparr>sockets := [(''a'', ''p1'')], disconnectTimer := Some 60000\<rparr>)
   \<and> pendingJoinTimer_callback (duel\<lparr>sockets := [(''a'', ''p1'')], disconnectTimer := Some 60000\<rparr>)
         (fst (run initial_Server (duel_events @ duel_dropped)))
       = fst (run initial_Server (duel_events @ duel_dropped))"
proof -
  let ?st = "fst (run initial_Server (duel_events @ duel_dropped))"
  let ?sess = "duel\<lparr>sockets := [(''a'', ''p1'')], disconnectTimer := Some 60000\<rparr>"
  have st: "?st = \<lparr>sessions = [(''s'', ?sess)],
      socketToSession = [(''a'', ''s'')], sessionRounds = [(''s'', 0)]\<rparr>"
    unfolding run_append_fst using duel_dropped_eq by (simp add: duel_server_def)
  have h1: "run initial_Server (duel_events @ duel_dropped)
              = (?st, snd (run initial_Server (duel_events @ duel_dropped)))"
    by simp
  have h2: "SessionManager_get ?st ''s'' = Some ?sess"
    unfolding st by (simp add: SessionManager_get_def)
  have d: "SessionManager_get (fst (step ?st (DisconnectTimerFires ''s''))) ''s'' = None"
    unfolding st
    by (simp add: SessionManager_get_def disconnectTimer_callback_def SessionManager_delete_def
        duel_eq)
  have p: "2 \<le> length (players ?sess)"
    unfolding duel_eq by simp
  show ?thesis
    using timers_delete_only_when_justified[OF h1 h2] h2 d p by blast
qed

text \<open>
  C5 as stated fails for the disconnect callback: it does not look at the session. On a
  session built with the methods of the \<^verbatim>\<open>Session\<close> class, in which the timer is running
  and both players are connected, the callback deletes the session.
\<close>

theorem disconnect_timer_deletes_connected_session:
  "SessionManager_get raced_server ''s'' = Some raced
   \<and> bothConnected raced
   \<and> disconnectTimer_callback raced raced_server = raced_server\<lparr>sessions := []\<rparr>
   \<and> SessionManager_get (fst (step raced_server (DisconnectTimerFires ''s''))) ''s'' = None"
  unfolding raced_server_def raced_eq unfolding duel_eq
  by (simp add: SessionManager_get_def disconnectTimer_callback_def SessionManager_delete_def
      bothConnected_def)

section \<open>Self-targeted attacks at low health\<close>

lemma useAbility_self_boosted:
  "useAbility (setHealth duel ''p1'' h) ''p1'' ''p1'' boosted
     = Inr (setHealth duel ''p1'' (if h - 20 < 0 then 0 else h - 20))"
  unfolding duel_eq
  by (simp add: useAbility_def setHealth_def boosted_def Ability_all_def offenseAttack_def
      onAttack_div onDefend_div afterDamage_def Let_def)

lemma step_useAbility_get:
  assumes "SessionManager_get st i = Some s" "useAbility s f t rnd = Inr s'"
  shows "SessionManager_get (fst (step st (SocketUseAbility sock i f t rnd))) i = Some s'"
  using on_useAbility_get[OF assms(1), of sock f t rnd] assms(2) by simp

lemma duel_worn_get:
  "SessionManager_get (fst (run duel_server duel_worn)) ''s'' = Some worn"
proof -
  have g0: "SessionManager_get duel_server ''s'' = Some duel"
    by (simp add: duel_server_eq SessionManager_get_def)
  note g1 = step_useAbility_get[OF g0 useAbility_duel_self, of "''a''"]
  note g2 = step_useAbility_get[OF g1 useAbility_self_boosted, of "''a''"]
  note g3 = step_useAbility_get[OF g2 useAbility_self_boosted, of "''a''"]
  note g4 = step_useAbility_get[OF g3 useAbility_self_boosted, of "''a''"]
  note g5 = step_useAbility_get[OF g4 useAbility_self_boosted, of "''a''"]
  show ?thesis
    unfolding duel_worn_def run_Cons_fst worn_def using g5 by simp
qed

text \<open>
  C10 as stated fails where the health floor applies: after five self-targeted attacks
  through the socket handler the first player has health 10; a sixth, with the attack
  boost triggering, deals net damage 20 and leaves health 0, a reduction by 10.
\<close>

theorem self_attack_health_floor:
  "SessionManager_get (fst (run initial_Server (duel_events @ duel_worn))) ''s'' = Some worn
   \<and> playerHealth worn ''p1'' = Some 10
   \<and> netDamageOf (the (map_of (players worn) ''p1'')) (the (map_of (players worn) ''p1'')) boosted
       = 20
   \<and> resultHealth (useAbility worn ''p1'' ''p1'' boosted) ''p1'' = Some 0"
proof -
  have 1: "SessionManager_get (fst (run initial_Server (duel_events @ duel_worn))) ''s'' = Some worn"
    unfolding run_append_fst using duel_worn_get by (simp add: duel_server_def)
  have 2: "playerHealth worn ''p1'' = Some 10"
    unfolding worn_def duel_eq by (simp add: playerHealth_def setHealth_def)
  have 3: "netDamageOf (the (map_of (players worn) ''p1'')) (the (map_of (players worn) ''p1'')) boosted
       = 20"
    unfolding worn_def duel_eq
    by (simp add: netDamageOf_def setHealth_def boosted_def Ability_all_def onAttack_div Let_def)
  have 4: "resultHealth (useAbility worn ''p1'' ''p1'' boosted) ''p1'' = Some 0"
    unfolding worn_def useAbility_self_boosted unfolding duel_eq
    by (simp add: resultHealth_def playerHealth_def setHealth_def)
  from 1 2 3 4 show ?thesis by blast
qed

end
